theory Spec2Isabelle
  imports Main "HOL-Library.Word"
begin

unbundle bit_operations_syntax

section \<open>The free functions of namespace l9945\<close>

type_synonym u8 = "8 word"
type_synonym u32 = "32 word"

text \<open>
  \<^verbatim>\<open>getRightmost1position\<close>: the loop shifts \<open>work\<close> right while its low bit is clear
  and counts the shifts, stopping at 32.
\<close>

function getRightmost1position_loop :: "u32 \<Rightarrow> u32 \<Rightarrow> u32" where
  "getRightmost1position_loop work result =
     (if work AND 1 = 0 \<and> result < 32
      then getRightmost1position_loop (drop_bit 1 work) (result + 1)
      else result)"
  by pat_completeness auto
termination
  apply (relation "measure (\<lambda>(work, result). 32 - unat result)")
   apply simp
  apply (auto simp: word_less_nat_alt unat_word_ariths)
  done

declare getRightmost1position_loop.simps [simp del]

definition getRightmost1position :: "u32 \<Rightarrow> u32" where
  "getRightmost1position aIn = getRightmost1position_loop aIn 0"

text \<open>
  \<^verbatim>\<open>calculateParity\<close>: the shift-and-xor cascade gathers the exclusive or of all 32 bits
  in bit 0; the function returns the complement of that bit.
\<close>

definition calculateParity :: "u32 \<Rightarrow> u32" where
  "calculateParity aIn =
     (let result = aIn;
          result = result XOR drop_bit 1 result;
          result = result XOR drop_bit 2 result;
          result = result XOR drop_bit 4 result;
          result = result XOR drop_bit 8 result;
          result = result XOR drop_bit 16 result
      in NOT result AND 1)"

text \<open>
  The exclusive-or fold of the 32 bits of a word, as the specification names it: the same
  cascade as in \<^verbatim>\<open>calculateParity\<close>, without the final complement.
\<close>

definition xorFold :: "u32 \<Rightarrow> u32" where
  "xorFold aIn =
     (let result = aIn;
          result = result XOR drop_bit 1 result;
          result = result XOR drop_bit 2 result;
          result = result XOR drop_bit 4 result;
          result = result XOR drop_bit 8 result;
          result = result XOR drop_bit 16 result
      in result AND 1)"

section \<open>Constants of class L9945\<close>

definition cResetDelay :: u32 where "cResetDelay = 10"
definition cSizeofRegister :: nat where "cSizeofRegister = 4"
definition cRegisterCount :: u32 where "cRegisterCount = 14"

definition cCommand0 :: u32 where "cCommand0 = 0"
definition cCommand1 :: u32 where "cCommand1 = 1"
definition cCommand3 :: u32 where "cCommand3 = 3"
definition cCommand4 :: u32 where "cCommand4 = 4"
definition cCommand9 :: u32 where "cCommand9 = 9"
definition cCommand10 :: u32 where "cCommand10 = 10"
definition cCommand13 :: u32 where "cCommand13 = 13"

definition cInvalidResponse :: u32 where "cInvalidResponse = 0"
definition cInvalidParity :: u32 where "cInvalidParity = 1"

definition cMaskRead :: u32 where "cMaskRead = push_bit 27 0x01"
definition cMaskChannel :: u32 where "cMaskChannel = 0x07"
definition cMaskChannelDiagnostics :: u32 where "cMaskChannelDiagnostics = 0x010101"
definition cChannelCount :: u32 where "cChannelCount = cMaskChannel + 1"
definition cNoDelay :: u32 where "cNoDelay = 0"

datatype SpiResult = cOk | cError | cBusy | cTimeout

datatype Exception = cCommunication | cParity

datatype Bridge = c1 | c2

text \<open>The underlying value of a \<^verbatim>\<open>Bridge\<close> enumerator.\<close>

fun bridgeValue :: "Bridge \<Rightarrow> u32" where
  "bridgeValue c1 = 0"
| "bridgeValue c2 = 4"

definition cMask0enableDiagnostics :: u32 where "cMask0enableDiagnostics = push_bit 25 0x01"
definition cMask0spiInputSelect81 :: u32 where "cMask0spiInputSelect81 = push_bit 17 0xff"
definition cMask0protectionDisable81 :: u32 where "cMask0protectionDisable81 = push_bit 9 0xff"
definition cMask0outputVcompared81 :: u32 where "cMask0outputVcompared81 = push_bit 1 0xff"
definition cMask4bridge1config :: u32 where "cMask4bridge1config = push_bit 26 0x01"
definition cMask9diagOffPulse81 :: u32 where "cMask9diagOffPulse81 = push_bit 9 0xff"
definition cMask9diagOnPulse81 :: u32 where "cMask9diagOnPulse81 = push_bit 1 0xff"
definition cMask9diagnosticBit2ch81 :: u32 where "cMask9diagnosticBit2ch81 = push_bit 17 0xff"
definition cMask9diagnosticBit1ch81 :: u32 where "cMask9diagnosticBit1ch81 = push_bit 9 0xff"
definition cMask9diagnosticBit0ch81 :: u32 where "cMask9diagnosticBit0ch81 = push_bit 1 0xff"
definition cMask10bistHwscRequest :: u32 where "cMask10bistHwscRequest = push_bit 5 0x03"
definition cMask81tBlankOc81 :: u32 where "cMask81tBlankOc81 = push_bit 9 0x07"
definition cMask81lsHsConfig81 :: u32 where "cMask81lsHsConfig81 = push_bit 2 0x01"

text \<open>\<^verbatim>\<open>enum class RequestBist\<close>, \<^verbatim>\<open>ChannelOcBlankTime\<close> and \<^verbatim>\<open>ChannelSide\<close>, by their
  underlying values: the code compares and ors them as such.\<close>

definition RequestBist_cYes :: u32 where
  "RequestBist_cYes = push_bit (unat (getRightmost1position cMask10bistHwscRequest)) 1"

definition c97us :: u32 where
  "c97us = push_bit (unat (getRightmost1position cMask81tBlankOc81)) 1 * 6"
definition c142us :: u32 where
  "c142us = push_bit (unat (getRightmost1position cMask81tBlankOc81)) 1 * 7"

definition cLs :: u32 where "cLs = 0"
definition cHs :: u32 where
  "cHs = push_bit (unat (getRightmost1position cMask81lsHsConfig81)) 1"

definition cInitialRegisterValues :: "u32 list" where
  "cInitialRegisterValues =
     [0x08000001, 0x1EC00001, 0x2EC00001, 0x3BC00000, 0x48C00001, 0x5EC00000, 0x6EC00000,
      0x7AC00000, 0x88C00001, 0x9AABFFFE, 0xAAAAAA80, 0xBAAAAAAA, 0xCAAAAAAB, 0xDAAAAAAA]"

definition cFixedPatternValues :: "u32 list" where
  "cFixedPatternValues =
     [0x00000000, 0x10000000, 0x20000000, 0x30000000, 0x40000000, 0x50000000, 0x60000000,
      0x70000000, 0x80000000, 0x92AA0000, 0xA2AAAA80, 0xBAAAAAAA, 0xCAAAAAAB, 0xDAAAAAAA]"

definition cFixedPatternMasks :: "u32 list" where
  "cFixedPatternMasks =
     [0xF0000000, 0xF0000000, 0xF0000000, 0xF0000000, 0xF0000000, 0xF0000000, 0xF1000000,
      0xF1000000, 0xF0000000, 0xF7FE0000, 0xF7FFFF80, 0xFFFFFFFF, 0xFFFFFFFF, 0xFFFFFFFF]"

section \<open>The interface object and the driver state\<close>

text \<open>
  The class is a template over the application interface \<^verbatim>\<open>tInterface\<close>. The interface is
  modelled by the log of the calls the driver makes on it, oldest first, and by the answers
  of the SPI peripheral: \<open>spi k\<close> is the outcome of the \<open>k\<close>-th call of
  \<^verbatim>\<open>spiTransmitReceive\<close> and the four bytes it leaves in the receive buffer.
  \<^verbatim>\<open>fatalError\<close> is modelled as a call that records its argument and returns (the flag or
  callback variant of the interface); an interface that throws leaves the driver at that
  call, with the state reached there.
\<close>

datatype call =
    enableReset bool
  | delayMs u32
  | enableSpiTransfer bool
  | enableAll bool
  | fatalError Exception
  | spiTransmitReceive "u8 list"

record tInterface =
  calls :: "call list"
  exchanges :: nat
  spi :: "nat \<Rightarrow> SpiResult \<times> u8 \<times> u8 \<times> u8 \<times> u8"

record L9945 =
  mDataOut :: "u8 list"
  mDataIn :: "u8 list"
  mInterface :: tInterface
  mReadCache :: "u32 list"
  mWriteCache :: "u32 list"
  mSpiFailed :: bool
  mWriteDelay :: u32

text \<open>The arrays have the sizes the class declares.\<close>

definition wellFormed :: "L9945 \<Rightarrow> bool" where
  "wellFormed s \<longleftrightarrow>
     length (mDataOut s) = 2 * cSizeofRegister \<and> length (mDataIn s) = 2 * cSizeofRegister \<and>
     length (mReadCache s) = unat cRegisterCount \<and> length (mWriteCache s) = unat cRegisterCount"

text \<open>A call on the interface that returns nothing.\<close>

definition invoke :: "call \<Rightarrow> L9945 \<Rightarrow> L9945" where
  "invoke c s = s\<lparr>mInterface := (mInterface s)\<lparr>calls := calls (mInterface s) @ [c]\<rparr>\<rparr>"

text \<open>
  \<^verbatim>\<open>mInterface.spiTransmitReceive(aTxData, mDataIn, cSizeofRegister)\<close>: the call is logged
  with the bytes sent, the peripheral's next answer is consumed, and the received bytes
  land in the first four places of \<^verbatim>\<open>mDataIn\<close>.
\<close>

definition transmitReceive :: "u8 list \<Rightarrow> L9945 \<Rightarrow> SpiResult \<times> L9945" where
  "transmitReceive aTxData s =
     (let i = mInterface s;
          (r, b0, b1, b2, b3) = spi i (exchanges i)
      in (r, s\<lparr>mDataIn := [b0, b1, b2, b3] @ drop cSizeofRegister (mDataIn s),
                mInterface := i\<lparr>calls := calls i @ [spiTransmitReceive aTxData],
                                 exchanges := Suc (exchanges i)\<rparr>\<rparr>))"

section \<open>The transfer engine\<close>

definition prepareDataToSend :: "u32 \<Rightarrow> L9945 \<Rightarrow> L9945" where
  "prepareDataToSend aValue s =
     (let actual = aValue XOR calculateParity aValue
      in s\<lparr>mDataOut := (mDataOut s)
             [0 := ucast (drop_bit 24 actual),
              1 := ucast (drop_bit 16 actual),
              2 := ucast (drop_bit 8 actual),
              3 := ucast actual]\<rparr>)"

text \<open>The word the driver assembles from the first four bytes of the receive buffer.\<close>

definition receivedWord :: "u8 list \<Rightarrow> u32" where
  "receivedWord d =
     push_bit 24 (ucast (d ! 0)) OR push_bit 16 (ucast (d ! 1)) OR
     push_bit 8 (ucast (d ! 2)) OR ucast (d ! 3)"

text \<open>
  \<^verbatim>\<open>spiTransfer\<close>. The chip select is toggled and the delay is made whatever the latch
  says; the two exchanges are guarded by \<open>success\<close>. The last statement stores the result
  in \<^verbatim>\<open>mReadCache[aCommand]\<close>: for an index beyond the array the behaviour of the C++
  code is undefined, which the model returns as \<open>None\<close>.
\<close>

definition spiTransfer :: "u32 \<Rightarrow> u32 \<Rightarrow> L9945 \<Rightarrow> (u32 \<times> L9945) option" where
  "spiTransfer aCommand aDelay s0 =
     (let s1 = invoke (enableSpiTransfer True) s0;
          attempt = (\<not> mSpiFailed s1 \<and> aCommand < cRegisterCount);
          (spiResult1, s2) =
            (if attempt then transmitReceive (take cSizeofRegister (mDataOut s1)) s1
             else (cOk, s1));
          success = (attempt \<and> spiResult1 = cOk);
          s3 = invoke (enableSpiTransfer False) s2;
          s4 = invoke (delayMs aDelay) s3;
          s5 = invoke (enableSpiTransfer True) s4;
          (spiResult2, s6) =
            (if success then transmitReceive (drop cSizeofRegister (mDataOut s5)) s5
             else (cOk, s5));
          result = (if success \<and> spiResult2 = cOk then receivedWord (mDataIn s6)
                    else cInvalidResponse);
          s7 = invoke (enableSpiTransfer False) s6;
          (result, s8) =
            (if \<not> mSpiFailed s7 then
               if spiResult1 \<noteq> cOk \<or> spiResult2 \<noteq> cOk then
                 (cInvalidResponse,
                  invoke (fatalError cCommunication)
                    (invoke (enableAll False) (s7\<lparr>mSpiFailed := True\<rparr>)))
               else if calculateParity result = cInvalidParity then
                 (cInvalidResponse,
                  invoke (fatalError cParity)
                    (invoke (enableAll False) (s7\<lparr>mSpiFailed := True\<rparr>)))
               else (result, s7)
             else (result, s7))
      in if aCommand < cRegisterCount
         then Some (result, s8\<lparr>mReadCache := (mReadCache s8)[unat aCommand := result]\<rparr>)
         else None)"

text \<open>\<^verbatim>\<open>read\<close> indexes \<^verbatim>\<open>cFixedPatternValues\<close> with the command before anything else.\<close>

definition read :: "u32 \<Rightarrow> L9945 \<Rightarrow> (u32 \<times> L9945) option" where
  "read aCommand s =
     (if aCommand < cRegisterCount
      then spiTransfer aCommand cNoDelay
             (prepareDataToSend (cFixedPatternValues ! unat aCommand OR cMaskRead) s)
      else None)"

text \<open>\<^verbatim>\<open>write\<close> (\<open>write\<close> is a keyword of the prover, hence the suffix).\<close>

definition write_cmd :: "u32 \<Rightarrow> u32 \<Rightarrow> L9945 \<Rightarrow> (bool \<times> L9945) option" where
  "write_cmd aCommand aValue s =
     (if aCommand < cRegisterCount then
        let toWrite = (aValue AND NOT (cMaskRead OR cFixedPatternMasks ! unat aCommand))
                        OR cFixedPatternValues ! unat aCommand;
            s1 = s\<lparr>mWriteCache := (mWriteCache s)[unat aCommand := toWrite]\<rparr>;
            s2 = prepareDataToSend toWrite s1;
            delay = mWriteDelay s2;
            s3 = s2\<lparr>mWriteDelay := cNoDelay\<rparr>
        in case spiTransfer aCommand delay s3 of
             None \<Rightarrow> None
           | Some (result, s4) \<Rightarrow> Some (result \<noteq> cInvalidResponse, s4)
      else None)"

section \<open>Whole-cache operations and reset\<close>

text \<open>
  \<^verbatim>\<open>readAllIntoCache\<close>: the loop condition tests \<open>result\<close>, which the body never changes.
  The value \<^verbatim>\<open>read\<close> returns is stored once more in the slot of the register.
\<close>

function readAllIntoCache_loop :: "bool \<Rightarrow> nat \<Rightarrow> L9945 \<Rightarrow> L9945 option" where
  "readAllIntoCache_loop result command s =
     (if result \<and> command < unat cRegisterCount then
        case read (of_nat command) s of
          None \<Rightarrow> None
        | Some (v, s1) \<Rightarrow>
            readAllIntoCache_loop result (Suc command)
              (s1\<lparr>mReadCache := (mReadCache s1)[command := v]\<rparr>)
      else Some s)"
  by pat_completeness auto
termination
  by (relation "measure (\<lambda>(result, command, s). unat cRegisterCount - command)") auto

declare readAllIntoCache_loop.simps [simp del]

definition readAllIntoCache :: "L9945 \<Rightarrow> (bool \<times> L9945) option" where
  "readAllIntoCache s =
     (case readAllIntoCache_loop True 0 s of
        None \<Rightarrow> None
      | Some s1 \<Rightarrow> Some (mSpiFailed s1, s1))"

definition readIntoCache :: "u32 \<Rightarrow> L9945 \<Rightarrow> (bool \<times> L9945) option" where
  "readIntoCache aCommand s =
     (case read aCommand s of
        None \<Rightarrow> None
      | Some (v, s1) \<Rightarrow>
          let s2 = s1\<lparr>mReadCache := (mReadCache s1)[unat aCommand := v]\<rparr>
          in Some (mSpiFailed s2, s2))"

function writeAllFromCache_loop :: "bool \<Rightarrow> nat \<Rightarrow> L9945 \<Rightarrow> (bool \<times> L9945) option" where
  "writeAllFromCache_loop result command s =
     (if result \<and> command < unat cRegisterCount then
        case write_cmd (of_nat command) (mWriteCache s ! command) s of
          None \<Rightarrow> None
        | Some (ok, s1) \<Rightarrow>
            writeAllFromCache_loop (if \<not> ok then False else result) (Suc command) s1
      else Some (result, s))"
  by pat_completeness auto
termination
  by (relation "measure (\<lambda>(result, command, s). unat cRegisterCount - command)") auto

declare writeAllFromCache_loop.simps [simp del]

definition writeAllFromCache :: "L9945 \<Rightarrow> (bool \<times> L9945) option" where
  "writeAllFromCache s = writeAllFromCache_loop True 0 s"

definition writeFromCache :: "u32 \<Rightarrow> L9945 \<Rightarrow> (bool \<times> L9945) option" where
  "writeFromCache aCommand s =
     (if aCommand < cRegisterCount then write_cmd aCommand (mWriteCache s ! unat aCommand) s
      else None)"

text \<open>
  \<^verbatim>\<open>avoidInitialCommunicationFailure\<close>: one exchange pair made directly on the interface;
  the outcomes of the two exchanges are dropped, and the latch is neither read nor written.
\<close>

definition avoidInitialCommunicationFailure :: "L9945 \<Rightarrow> L9945" where
  "avoidInitialCommunicationFailure s =
     (let toWrite = (cInitialRegisterValues ! unat cCommand13
                       AND NOT (cMaskRead OR cFixedPatternMasks ! unat cCommand13))
                     OR cFixedPatternValues ! unat cCommand13;
          s1 = s\<lparr>mWriteCache := (mWriteCache s)[unat cCommand13 := toWrite]\<rparr>;
          s2 = prepareDataToSend toWrite s1;
          s3 = invoke (enableSpiTransfer True) s2;
          s4 = snd (transmitReceive (take cSizeofRegister (mDataOut s3)) s3);
          s5 = invoke (enableSpiTransfer False) s4;
          s6 = invoke (enableSpiTransfer True) s5;
          s7 = snd (transmitReceive (drop cSizeofRegister (mDataOut s6)) s6)
      in invoke (enableSpiTransfer False) s7)"

definition reset :: "L9945 \<Rightarrow> L9945 option" where
  "reset s =
     (let s1 = invoke (enableReset True) s;
          s2 = invoke (delayMs cResetDelay) s1;
          s3 = invoke (enableReset False) s2;
          s4 = invoke (delayMs cResetDelay) s3;
          s5 = s4\<lparr>mWriteCache := take (unat cRegisterCount) cInitialRegisterValues\<rparr>;
          s6 = avoidInitialCommunicationFailure s5;
          s7 = s6\<lparr>mSpiFailed := False\<rparr>
      in case writeAllFromCache s7 of
           None \<Rightarrow> None
         | Some (ok, s8) \<Rightarrow> Some (invoke (enableAll (\<not> mSpiFailed s8)) s8))"

section \<open>Accessors on the read cache\<close>

definition setWriteDelay :: "u32 \<Rightarrow> L9945 \<Rightarrow> L9945" where
  "setWriteDelay aWriteDelay s = s\<lparr>mWriteDelay := aWriteDelay\<rparr>"

definition getEnum :: "u32 \<Rightarrow> u32 \<Rightarrow> L9945 \<Rightarrow> u32" where
  "getEnum aCommand aFunction s = mReadCache s ! unat aCommand AND aFunction"

definition getBool :: "u32 \<Rightarrow> u32 \<Rightarrow> L9945 \<Rightarrow> bool" where
  "getBool aCommand aFunction s = (mReadCache s ! unat aCommand AND aFunction > 0)"

text \<open>The overload \<^verbatim>\<open>getValue(aCommand, aFunction, aChannel)\<close>, which returns a \<^verbatim>\<open>bool\<close>.\<close>

definition getValue_channel :: "u32 \<Rightarrow> u32 \<Rightarrow> u32 \<Rightarrow> L9945 \<Rightarrow> bool" where
  "getValue_channel aCommand aFunction aChannel s =
     (drop_bit (unat (getRightmost1position aFunction + aChannel - 1))
        (mReadCache s ! unat aCommand AND aFunction) AND 1 \<noteq> 0)"

definition bridge2command1458 :: "u32 \<Rightarrow> Bridge \<Rightarrow> u32" where
  "bridge2command1458 aCommand aBridge = aCommand + bridgeValue aBridge"

definition channel2command18 :: "u32 \<Rightarrow> u32" where
  "channel2command18 aChannel = cCommand1 + ((aChannel - 1) AND cMaskChannel)"

definition getBridgeConfig :: "Bridge \<Rightarrow> L9945 \<Rightarrow> bool" where
  "getBridgeConfig aBridge s = getBool (bridge2command1458 cCommand4 aBridge) cMask4bridge1config s"

definition getOcBlankTime :: "u32 \<Rightarrow> L9945 \<Rightarrow> u32" where
  "getOcBlankTime aChannel s = getEnum (channel2command18 aChannel) cMask81tBlankOc81 s"

definition getSide :: "u32 \<Rightarrow> L9945 \<Rightarrow> u32" where
  "getSide aChannel s = getEnum (channel2command18 aChannel) cMask81lsHsConfig81 s"

definition getSpiOnOut :: "u32 \<Rightarrow> L9945 \<Rightarrow> bool" where
  "getSpiOnOut aChannel s =
     (let side = getSide aChannel s;
          bit = getValue_channel cCommand0 cMask0outputVcompared81 aChannel s
      in (bit \<and> side = cHs) \<or> (\<not> bit \<and> side = cLs))"

definition writeEnum :: "u32 \<Rightarrow> u32 \<Rightarrow> u32 \<Rightarrow> L9945 \<Rightarrow> (bool \<times> L9945) option" where
  "writeEnum aCommand aFunction aInput s =
     (if aCommand < cRegisterCount
      then write_cmd aCommand ((mWriteCache s ! unat aCommand AND NOT aFunction) OR aInput) s
      else None)"

definition writeBistHwscRequest :: "u32 \<Rightarrow> L9945 \<Rightarrow> (bool \<times> L9945) option" where
  "writeBistHwscRequest aValue s =
     (case writeEnum cCommand10 cMask10bistHwscRequest aValue s of
        None \<Rightarrow> None
      | Some (result, s1) \<Rightarrow>
          Some (result,
                s1\<lparr>mWriteCache := (mWriteCache s1)
                   [unat cCommand10 :=
                      mWriteCache s1 ! unat cCommand10 AND NOT cMask10bistHwscRequest]\<rparr>))"

section \<open>The diagnostics engine\<close>

datatype DiagnosticsTest = cNone | cAuto | cOffPulse | cOnPulse | cBist

text \<open>\<^verbatim>\<open>static_cast<size_t>(aTest)\<close>.\<close>

fun testIndex :: "DiagnosticsTest \<Rightarrow> nat" where
  "testIndex cNone = 0"
| "testIndex cAuto = 1"
| "testIndex cOffPulse = 2"
| "testIndex cOnPulse = 3"
| "testIndex cBist = 4"

definition cWaitForTest :: "u32 list" where
  "cWaitForTest = [0, 0, 1, 1, 3]"

text \<open>
  The members of \<^verbatim>\<open>DiagnosticsResult\<close>; its own \<^verbatim>\<open>mReadCache\<close>, the frozen copy, is
  named \<open>mReadCache_copy\<close> here to keep it apart from the field of the driver.
\<close>

record DiagnosticsResult =
  mTestPerformed :: DiagnosticsTest
  mChannelsDiagnosed :: "bool list"
  mReadCache_copy :: "u32 list"

function gatherChannels_loop :: "u32 \<Rightarrow> bool \<Rightarrow> L9945 \<Rightarrow> u32 \<Rightarrow> u32 \<Rightarrow> u32" where
  "gatherChannels_loop aTimeLimit aFetNow s i willTest =
     (if i < cChannelCount then
        let ok = (getOcBlankTime (i + 1) s < aTimeLimit);
            ok = (ok \<and> getSpiOnOut (i + 1) s = aFetNow)
        in gatherChannels_loop aTimeLimit aFetNow s (i + 1)
             (willTest AND push_bit (unat i) (if ok then 1 else 0))
      else willTest)"
  by pat_completeness auto
termination
  apply (relation "measure (\<lambda>(aTimeLimit, aFetNow, s, i, willTest). 8 - unat i)")
   apply simp
  apply (auto simp: cChannelCount_def cMaskChannel_def word_less_nat_alt unat_word_ariths)
  done

declare gatherChannels_loop.simps [simp del]

definition gatherChannels :: "u32 \<Rightarrow> bool \<Rightarrow> L9945 \<Rightarrow> u32" where
  "gatherChannels aTimeLimit aFetNow s =
     (let willTest = (if getBridgeConfig c1 s then 0 else 0x0f);
          willTest = willTest OR (if getBridgeConfig c2 s then 0 else 0xf0);
          willTest = willTest AND
            (if mReadCache s ! unat cCommand0 AND cMask0enableDiagnostics > 0 then 0xff else 0);
          willTest = willTest AND
            drop_bit (unat (getRightmost1position cMask0spiInputSelect81))
              (mReadCache s ! unat cCommand0);
          willTest = willTest AND
            NOT (drop_bit (unat (getRightmost1position cMask0protectionDisable81))
                   (mReadCache s ! unat cCommand0));
          willTest = gatherChannels_loop aTimeLimit aFetNow s 0 willTest
      in willTest AND 0xff)"

text \<open>
  The block \<^verbatim>\<open>if (willTest != 0u) { setWriteDelay; write; mWriteCache[cCommand9] = ... }\<close>
  that the \<^verbatim>\<open>cOffPulse\<close> and \<^verbatim>\<open>cOnPulse\<close> branches of \<^verbatim>\<open>perform\<close> share, up to
  the mask of the pulse bits.
\<close>

definition triggerPulse :: "DiagnosticsTest \<Rightarrow> u32 \<Rightarrow> u32 \<Rightarrow> L9945 \<Rightarrow> L9945 option" where
  "triggerPulse aTest aMask willTest s =
     (if willTest \<noteq> 0 then
        let s1 = setWriteDelay (cWaitForTest ! testIndex aTest) s
        in case write_cmd cCommand9
                  (cFixedPatternValues ! unat cCommand9
                     OR push_bit (unat (getRightmost1position aMask)) willTest) s1 of
             None \<Rightarrow> None
           | Some (ok, s2) \<Rightarrow>
               Some (s2\<lparr>mWriteCache := (mWriteCache s2)
                          [unat cCommand9 := cFixedPatternValues ! unat cCommand9]\<rparr>)
      else Some s)"

text \<open>The bitmap of the \<^verbatim>\<open>cAuto\<close> branch.\<close>

definition autoChannels :: "L9945 \<Rightarrow> u32" where
  "autoChannels s =
     (let willTest =
            (if mReadCache s ! unat cCommand0 AND cMask0enableDiagnostics > 0 then 0xff else 0)
      in willTest AND
           NOT (drop_bit (unat (getRightmost1position cMask0protectionDisable81))
                  (mReadCache s ! unat cCommand0)))"

text \<open>
  The branches of \<^verbatim>\<open>perform\<close>: the device traffic of the requested test and the bitmap
  \<open>willTest\<close> it leaves.
\<close>

definition performTest :: "DiagnosticsTest \<Rightarrow> L9945 \<Rightarrow> (u32 \<times> L9945) option" where
  "performTest aTest s =
     (if aTest = cAuto then
        case readAllIntoCache s of
          None \<Rightarrow> None
        | Some (failed, s1) \<Rightarrow> Some (autoChannels s1, s1)
      else if aTest = cOffPulse then
        case readAllIntoCache s of
          None \<Rightarrow> None
        | Some (failed, s1) \<Rightarrow>
            let willTest = gatherChannels c142us True s1
            in (case triggerPulse aTest cMask9diagOffPulse81 willTest s1 of
                  None \<Rightarrow> None
                | Some s2 \<Rightarrow> Some (willTest, s2))
      else if aTest = cOnPulse then
        case readAllIntoCache s of
          None \<Rightarrow> None
        | Some (failed, s1) \<Rightarrow>
            let willTest = gatherChannels c97us False s1
            in (case triggerPulse aTest cMask9diagOnPulse81 willTest s1 of
                  None \<Rightarrow> None
                | Some s2 \<Rightarrow> Some (willTest, s2))
      else if aTest = cBist then
        case writeBistHwscRequest RequestBist_cYes
               (setWriteDelay (cWaitForTest ! testIndex aTest) s) of
          None \<Rightarrow> None
        | Some (ok, s1) \<Rightarrow>
            (case readAllIntoCache s1 of
               None \<Rightarrow> None
             | Some (failed, s2) \<Rightarrow> Some (0, s2))
      else
        case readAllIntoCache s of
          None \<Rightarrow> None
        | Some (failed, s1) \<Rightarrow> Some (0, s1))"

text \<open>
  \<^verbatim>\<open>perform\<close>: the result object records the test, then the branch runs, then the read
  cache of the driver is copied and the bitmap is spread over \<^verbatim>\<open>mChannelsDiagnosed\<close>.
\<close>

definition perform ::
  "DiagnosticsTest \<Rightarrow> DiagnosticsResult \<times> L9945 \<Rightarrow> (DiagnosticsResult \<times> L9945) option" where
  "perform aTest rs =
     (let r1 = (fst rs)\<lparr>mTestPerformed := aTest\<rparr>
      in case performTest aTest (snd rs) of
           None \<Rightarrow> None
         | Some (willTest, s1) \<Rightarrow>
             Some (r1\<lparr>mReadCache_copy := mReadCache s1,
                       mChannelsDiagnosed :=
                         map (\<lambda>i. willTest AND push_bit i 1 > 0) [0..<unat cChannelCount]\<rparr>,
                   s1))"

text \<open>
  \<^verbatim>\<open>DiagnosticsResult::getChannelDiagnostics\<close>: a function of the result object alone. The
  value of the \<^verbatim>\<open>ChannelDiagnostics\<close> enumeration is returned as its underlying word.
\<close>

definition getChannelDiagnostics :: "u32 \<Rightarrow> DiagnosticsResult \<Rightarrow> u32 option" where
  "getChannelDiagnostics aChannel r =
     (let all = mReadCache_copy r ! unat cCommand9 AND
                  (cMask9diagnosticBit2ch81 OR cMask9diagnosticBit1ch81 OR cMask9diagnosticBit0ch81)
      in if aChannel > 0 \<and> aChannel \<le> cChannelCount \<and>
            mChannelsDiagnosed r ! unat (aChannel - 1) \<and>
            (mTestPerformed r = cAuto \<or> mTestPerformed r = cOffPulse \<or>
             mTestPerformed r = cOnPulse)
         then Some (drop_bit (unat aChannel) all AND cMaskChannelDiagnostics)
         else None)"

section \<open>What a transfer does, read off the answers of the peripheral\<close>

text \<open>
  The outcome of the next exchange, the outcome of the one after it, and the word that one
  leaves in the receive buffer.
\<close>

definition firstResult :: "L9945 \<Rightarrow> SpiResult" where
  "firstResult s = fst (spi (mInterface s) (exchanges (mInterface s)))"

definition secondResult :: "L9945 \<Rightarrow> SpiResult" where
  "secondResult s = fst (spi (mInterface s) (Suc (exchanges (mInterface s))))"

definition secondWord :: "L9945 \<Rightarrow> u32" where
  "secondWord s =
     receivedWord (case snd (spi (mInterface s) (Suc (exchanges (mInterface s)))) of
                     (b0, b1, b2, b3) \<Rightarrow> [b0, b1, b2, b3])"

text \<open>The calls one \<^verbatim>\<open>spiTransfer\<close> makes on the interface, in order.\<close>

definition transferCalls :: "L9945 \<Rightarrow> u32 \<Rightarrow> call list" where
  "transferCalls s aDelay =
     (if mSpiFailed s then
        [enableSpiTransfer True, enableSpiTransfer False, delayMs aDelay,
         enableSpiTransfer True, enableSpiTransfer False]
      else if firstResult s \<noteq> cOk then
        [enableSpiTransfer True, spiTransmitReceive (take cSizeofRegister (mDataOut s)),
         enableSpiTransfer False, delayMs aDelay, enableSpiTransfer True,
         enableSpiTransfer False, enableAll False, fatalError cCommunication]
      else
        [enableSpiTransfer True, spiTransmitReceive (take cSizeofRegister (mDataOut s)),
         enableSpiTransfer False, delayMs aDelay, enableSpiTransfer True,
         spiTransmitReceive (drop cSizeofRegister (mDataOut s)), enableSpiTransfer False] @
        (if secondResult s \<noteq> cOk then [enableAll False, fatalError cCommunication]
         else if calculateParity (secondWord s) = cInvalidParity
         then [enableAll False, fatalError cParity]
         else []))"

text \<open>The value one \<^verbatim>\<open>spiTransfer\<close> returns.\<close>

definition transferResult :: "L9945 \<Rightarrow> u32" where
  "transferResult s =
     (if \<not> mSpiFailed s \<and> firstResult s = cOk \<and> secondResult s = cOk \<and>
         calculateParity (secondWord s) \<noteq> cInvalidParity
      then secondWord s else cInvalidResponse)"

text \<open>The notifications of the fatal-error sink in a log.\<close>

fun fatalErrors :: "call list \<Rightarrow> Exception list" where
  "fatalErrors [] = []"
| "fatalErrors (fatalError e # cs) = e # fatalErrors cs"
| "fatalErrors (c # cs) = fatalErrors cs"

text \<open>One step of the cascade in \<^verbatim>\<open>calculateParity\<close>.\<close>

definition foldStep :: "nat \<Rightarrow> u32 \<Rightarrow> u32" where
  "foldStep k x = x XOR drop_bit k x"

text \<open>
  A driver as the constructor leaves it, on an interface whose peripheral answers as given.
  The constructor does not initialise the caches and the receive buffer; they start at zero
  here.
\<close>

definition constructed :: "(nat \<Rightarrow> SpiResult \<times> u8 \<times> u8 \<times> u8 \<times> u8) \<Rightarrow> L9945" where
  "constructed answers =
     \<lparr>mDataOut = [0, 0, 0, 0, 0xf0, 0, 0, 1],
      mDataIn = replicate 8 0,
      mInterface = \<lparr>calls = [], exchanges = 0, spi = answers\<rparr>,
      mReadCache = replicate 14 0,
      mWriteCache = replicate 14 0,
      mSpiFailed = False,
      mWriteDelay = 0\<rparr>"

text \<open>A peripheral that answers every exchange with \<^verbatim>\<open>cOk\<close> and the word \<open>0x30000001\<close>, which has
  three bits set.\<close>

definition answersOk :: "nat \<Rightarrow> SpiResult \<times> u8 \<times> u8 \<times> u8 \<times> u8" where
  "answersOk k = (cOk, 0x30, 0, 0, 1)"

text \<open>The fixed-pattern-adjusted value of a requested value, as \<^verbatim>\<open>write\<close> computes it in
  \<^verbatim>\<open>toWrite\<close>.\<close>

definition adjusted :: "u32 \<Rightarrow> u32 \<Rightarrow> u32" where
  "adjusted aCommand aValue =
     (aValue AND NOT (cMaskRead OR cFixedPatternMasks ! unat aCommand))
       OR cFixedPatternValues ! unat aCommand"

text \<open>The state in which \<^verbatim>\<open>write\<close> calls \<^verbatim>\<open>spiTransfer\<close>.\<close>

definition beforeTransfer :: "u32 \<Rightarrow> u32 \<Rightarrow> L9945 \<Rightarrow> L9945" where
  "beforeTransfer aCommand aValue s =
     (prepareDataToSend (adjusted aCommand aValue)
        (s\<lparr>mWriteCache := (mWriteCache s)[unat aCommand := adjusted aCommand aValue]\<rparr>))
     \<lparr>mWriteDelay := cNoDelay\<rparr>"

text \<open>The arguments of the \<^verbatim>\<open>delayMs\<close> calls in a log. Every \<^verbatim>\<open>spiTransfer\<close> makes exactly
  one.\<close>

fun delays :: "call list \<Rightarrow> u32 list" where
  "delays [] = []"
| "delays (delayMs d # cs) = d # delays cs"
| "delays (c # cs) = delays cs"

text \<open>A peripheral that answers the first \<open>n\<close> exchanges with \<^verbatim>\<open>cOk\<close> and \<open>0x30000001\<close> and
  times out from then on.\<close>

definition answersFailAt :: "nat \<Rightarrow> nat \<Rightarrow> SpiResult \<times> u8 \<times> u8 \<times> u8 \<times> u8" where
  "answersFailAt n k = (if k < n then (cOk, 0x30, 0, 0, 1) else (cTimeout, 0, 0, 0, 0))"

text \<open>A read-cache entry is either the invalid-response value or a word that passes the
  parity check.\<close>

definition readCacheInvariant :: "L9945 \<Rightarrow> bool" where
  "readCacheInvariant s \<longleftrightarrow>
     list_all (\<lambda>w. w = cInvalidResponse \<or> calculateParity w \<noteq> cInvalidParity) (mReadCache s)"

text \<open>
  What relates a state of the driver to a later one, whatever transfers were made in
  between: the peripheral is the same and the arrays keep their sizes; a set latch stays set
  and no exchange is made; the fatal-error sink is notified once if the latch goes from clear
  to set and not at all otherwise; the read cache keeps its invariant.
\<close>

definition follows :: "L9945 \<Rightarrow> L9945 \<Rightarrow> bool" where
  "follows s s' \<longleftrightarrow>
     spi (mInterface s') = spi (mInterface s) \<and>
     (wellFormed s \<longrightarrow> wellFormed s') \<and>
     (mSpiFailed s \<longrightarrow>
        mSpiFailed s' \<and> exchanges (mInterface s') = exchanges (mInterface s)) \<and>
     length (fatalErrors (calls (mInterface s'))) =
       length (fatalErrors (calls (mInterface s))) +
         (if \<not> mSpiFailed s \<and> mSpiFailed s' then 1 else 0) \<and>
     (readCacheInvariant s \<longrightarrow> readCacheInvariant s')"

text \<open>The transfer-triggering calls an application can make on the driver, and a session of
  such calls; the values the calls return are dropped.\<close>

datatype request =
    Read u32
  | Write u32 u32
  | ReadIntoCache u32
  | WriteFromCache u32
  | ReadAllIntoCache
  | WriteAllFromCache

fun serve :: "request \<Rightarrow> L9945 \<Rightarrow> L9945 option" where
  "serve (Read aCommand) s = map_option snd (read aCommand s)"
| "serve (Write aCommand aValue) s = map_option snd (write_cmd aCommand aValue s)"
| "serve (ReadIntoCache aCommand) s = map_option snd (readIntoCache aCommand s)"
| "serve (WriteFromCache aCommand) s = map_option snd (writeFromCache aCommand s)"
| "serve ReadAllIntoCache s = map_option snd (readAllIntoCache s)"
| "serve WriteAllFromCache s = map_option snd (writeAllFromCache s)"

fun serveAll :: "request list \<Rightarrow> L9945 \<Rightarrow> L9945 option" where
  "serveAll [] s = Some s"
| "serveAll (q # qs) s = (case serve q s of None \<Rightarrow> None | Some s1 \<Rightarrow> serveAll qs s1)"

text \<open>
  The state \<^verbatim>\<open>reset\<close> has reached when it assigns \<^verbatim>\<open>mSpiFailed = false\<close>: the reset line has
  been toggled, the initial register image copied, and the throwaway exchange pair made.
\<close>

definition resetAccess :: "L9945 \<Rightarrow> L9945" where
  "resetAccess s =
     avoidInitialCommunicationFailure
       ((invoke (delayMs cResetDelay) (invoke (enableReset False)
          (invoke (delayMs cResetDelay) (invoke (enableReset True) s))))
        \<lparr>mWriteCache := take (unat cRegisterCount) cInitialRegisterValues\<rparr>)"

text \<open>The accessors of register 0 that the eligibility criteria name.\<close>

definition getEnableDiagnostics :: "L9945 \<Rightarrow> bool" where
  "getEnableDiagnostics s = getBool cCommand0 cMask0enableDiagnostics s"

definition getSpiInputSelect :: "u32 \<Rightarrow> L9945 \<Rightarrow> bool" where
  "getSpiInputSelect aChannel s = getValue_channel cCommand0 cMask0spiInputSelect81 aChannel s"

definition getProtectionDisable :: "u32 \<Rightarrow> L9945 \<Rightarrow> bool" where
  "getProtectionDisable aChannel s =
     getValue_channel cCommand0 cMask0protectionDisable81 aChannel s"

text \<open>A result object before any pass.\<close>

definition constructedResult :: DiagnosticsResult where
  "constructedResult =
     \<lparr>mTestPerformed = cNone, mChannelsDiagnosed = replicate 8 False,
      mReadCache_copy = replicate 14 0\<rparr>"

text \<open>
  The device of the scenario: diagnostics enabled, channel 3 in hardware input mode with
  protection enabled, low side and driven on, blanking time 11 us, both bridges independent.
  The words carry the register index in the top nibble and have an odd number of set bits.
\<close>

definition scenarioRegisters :: "u32 list" where
  "scenarioRegisters =
     [0x02080001, 0x10000000, 0x20000000, 0x30000001, 0x40000000, 0x50000001, 0x60000001,
      0x70000000, 0x80000000, 0x92AA0000, 0xA2AAAA81, 0xBAAAAAAA, 0xCAAAAAAB, 0xDAAAAAAA]"

text \<open>A peripheral that answers the two exchanges of the \<open>n\<close>-th transfer with the \<open>n\<close>-th
  word of the scenario.\<close>

definition answersScenario :: "nat \<Rightarrow> SpiResult \<times> u8 \<times> u8 \<times> u8 \<times> u8" where
  "answersScenario k =
     (let w = scenarioRegisters ! ((k div 2) mod 14)
      in (cOk, ucast (drop_bit 24 w), ucast (drop_bit 16 w), ucast (drop_bit 8 w), ucast w))"

text \<open>
  The calls that neither exchange data with the peripheral, nor switch its outputs, nor notify
  the fatal-error sink.
\<close>

fun quiet :: "call \<Rightarrow> bool" where
  "quiet (spiTransmitReceive tx) = False"
| "quiet (enableAll b) = False"
| "quiet (fatalError e) = False"
| "quiet c = True"

text \<open>The number of set bits among the low \<open>k\<close> bits of a word.\<close>

definition setBits :: "nat \<Rightarrow> u32 \<Rightarrow> nat" where
  "setBits k x = length (filter (bit x) [0..<k])"

section \<open>Properties: parity\<close>

lemma foldStep_xor: "foldStep k (x XOR y) = foldStep k x XOR foldStep k y"
  unfolding foldStep_def by (simp add: ac_simps)

lemma xorFold_steps:
  "xorFold x = foldStep 16 (foldStep 8 (foldStep 4 (foldStep 2 (foldStep 1 x)))) AND 1"
  by (simp add: xorFold_def foldStep_def Let_def)

lemma xorFold_xor: "xorFold (x XOR y) = xorFold x XOR xorFold y"
  by (simp only: xorFold_steps foldStep_xor bit.conj_xor_distrib2)

lemma and1_cases: "(x::u32) AND 1 = 0 \<or> x AND 1 = 1"
  by (simp add: and_one_eq mod_2_eq_odd)

lemma xorFold_cases: "xorFold x = 0 \<or> xorFold x = 1"
  unfolding xorFold_def Let_def by (rule and1_cases)

lemma not_and1: "NOT (r::u32) AND 1 = (r AND 1) XOR 1"
  by (rule bit_word_eqI) (auto simp add: bit_simps)

lemma calculateParity_xorFold: "calculateParity x = xorFold x XOR 1"
  unfolding calculateParity_def xorFold_def Let_def
  by (rule not_and1)

lemma xorFold_1: "xorFold 1 = 1"
  by (simp add: xorFold_def)

lemma xorFold_0: "xorFold 0 = 0"
  by (simp add: xorFold_def)

lemma calculateParity_0: "calculateParity 0 = cInvalidParity"
  by (simp add: calculateParity_def cInvalidParity_def)

lemma parity_invalid_iff: "calculateParity x = cInvalidParity \<longleftrightarrow> xorFold x = 0"
  using xorFold_cases [of x] by (auto simp add: calculateParity_xorFold cInvalidParity_def)

lemma parity_valid_iff: "calculateParity x \<noteq> cInvalidParity \<longleftrightarrow> xorFold x = 1"
  using xorFold_cases [of x] by (auto simp add: calculateParity_xorFold cInvalidParity_def)

lemma calculateParity_cases: "calculateParity x = 0 \<or> calculateParity x = 1"
  using xorFold_cases [of x] by (auto simp add: calculateParity_xorFold)

lemma sent_xorFold: "xorFold (aValue XOR calculateParity aValue) = 1"
  using xorFold_cases [of aValue]
  by (auto simp add: calculateParity_xorFold xorFold_xor xorFold_1 xorFold_0)

lemma sent_upper_bits: "drop_bit 1 (aValue XOR calculateParity aValue) = drop_bit 1 aValue"
  using calculateParity_cases [of aValue] by auto

text \<open>
  The fold is linear and is one on every single bit, so it is the parity of the number of set
  bits of the word.
\<close>

lemma xorFold_single: "\<forall>k \<in> set [0..<32]. xorFold (push_bit k 1) = 1"
  by (simp add: upt_rec xorFold_def)

lemma xorFold_power: "k < 32 \<Longrightarrow> xorFold (2 ^ k) = 1"
  using xorFold_single by (simp add: push_bit_eq_mult)

lemma take_bit_step:
  "take_bit (Suc k) (x::u32) = take_bit k x XOR (if bit x k then push_bit k 1 else 0)"
  by (rule bit_word_eqI) (auto simp add: bit_simps less_Suc_eq)

lemma xorFold_take_bit:
  "k \<le> 32 \<Longrightarrow> xorFold (take_bit k x) = (if odd (setBits k x) then 1 else 0)"
proof (induction k)
  case 0
  then show ?case by (simp add: setBits_def xorFold_0)
next
  case (Suc k)
  then have k: "k < 32" "k \<le> 32" by simp_all
  show ?case
    unfolding take_bit_step xorFold_xor Suc.IH [OF k(2)]
    using k(1) by (simp add: setBits_def xorFold_power xorFold_0)
qed

lemma xorFold_counts_bits: "xorFold x = (if odd (setBits 32 x) then 1 else 0)"
proof -
  have "take_bit 32 x = x"
    by (rule take_bit_word_eq_self) simp
  then show ?thesis
    using xorFold_take_bit [of 32 x] by simp
qed

lemma xorFold_odd: "xorFold x = 1 \<longleftrightarrow> odd (setBits 32 x)"
  by (simp add: xorFold_counts_bits)

lemma parity_valid_counts: "calculateParity x \<noteq> cInvalidParity \<longleftrightarrow> odd (setBits 32 x)"
  by (simp only: parity_valid_iff xorFold_odd)

section \<open>Properties: the buffers and the interface\<close>

lemma unat_index: "aCommand < cRegisterCount \<Longrightarrow> unat aCommand < 14"
  by (simp add: cRegisterCount_def word_less_nat_alt)

lemma invoke_fields [simp]:
  "mSpiFailed (invoke c s) = mSpiFailed s"
  "mReadCache (invoke c s) = mReadCache s"
  "mWriteCache (invoke c s) = mWriteCache s"
  "mWriteDelay (invoke c s) = mWriteDelay s"
  "mDataOut (invoke c s) = mDataOut s"
  "mDataIn (invoke c s) = mDataIn s"
  "calls (mInterface (invoke c s)) = calls (mInterface s) @ [c]"
  "exchanges (mInterface (invoke c s)) = exchanges (mInterface s)"
  "spi (mInterface (invoke c s)) = spi (mInterface s)"
  by (simp_all add: invoke_def)

lemma transmitReceive_fields [simp]:
  "mSpiFailed (snd (transmitReceive tx s)) = mSpiFailed s"
  "mReadCache (snd (transmitReceive tx s)) = mReadCache s"
  "mWriteCache (snd (transmitReceive tx s)) = mWriteCache s"
  "mWriteDelay (snd (transmitReceive tx s)) = mWriteDelay s"
  "mDataOut (snd (transmitReceive tx s)) = mDataOut s"
  "length (mDataIn (snd (transmitReceive tx s))) = 4 + (length (mDataIn s) - 4)"
  "calls (mInterface (snd (transmitReceive tx s))) = calls (mInterface s) @ [spiTransmitReceive tx]"
  "exchanges (mInterface (snd (transmitReceive tx s))) = Suc (exchanges (mInterface s))"
  "spi (mInterface (snd (transmitReceive tx s))) = spi (mInterface s)"
  "fst (transmitReceive tx s) = fst (spi (mInterface s) (exchanges (mInterface s)))"
  by (simp_all add: transmitReceive_def Let_def cSizeofRegister_def split: prod.split)

lemma transmitReceive_word [simp]:
  "receivedWord (mDataIn (snd (transmitReceive tx s))) =
     receivedWord (case snd (spi (mInterface s) (exchanges (mInterface s))) of
                     (b0, b1, b2, b3) \<Rightarrow> [b0, b1, b2, b3])"
  by (simp add: transmitReceive_def Let_def receivedWord_def split: prod.split)

lemma bytes_word:
  "receivedWord [ucast (drop_bit 24 w), ucast (drop_bit 16 w), ucast (drop_bit 8 w),
     ucast (w::u32)] = w"
  unfolding receivedWord_def
  apply simp
  apply (rule bit_word_eqI)
  apply (auto simp add: bit_simps)
   apply (case_tac [!] "16 \<le> n")
     apply (case_tac [!] "24 \<le> n")
     apply simp_all
  done

lemma update4:
  assumes "length xs = 8"
  shows "take 4 (xs[0 := a, 1 := b, 2 := c, 3 := d]) = [a, b, c, d]"
    and "drop 4 (xs[0 := a, 1 := b, 2 := c, 3 := d]) = drop 4 xs"
  using assms by (auto simp add: list_eq_iff_nth_eq nth_list_update less_Suc_eq numeral_eq_Suc)

lemma prepareDataToSend_fields [simp]:
  "mSpiFailed (prepareDataToSend v s) = mSpiFailed s"
  "mReadCache (prepareDataToSend v s) = mReadCache s"
  "mWriteCache (prepareDataToSend v s) = mWriteCache s"
  "mWriteDelay (prepareDataToSend v s) = mWriteDelay s"
  "mDataIn (prepareDataToSend v s) = mDataIn s"
  "mInterface (prepareDataToSend v s) = mInterface s"
  "length (mDataOut (prepareDataToSend v s)) = length (mDataOut s)"
  by (simp_all add: prepareDataToSend_def Let_def)

lemma prepareDataToSend_out:
  "mDataOut (prepareDataToSend v s) =
     (mDataOut s)[0 := ucast (drop_bit 24 (v XOR calculateParity v)),
                  1 := ucast (drop_bit 16 (v XOR calculateParity v)),
                  2 := ucast (drop_bit 8 (v XOR calculateParity v)),
                  3 := ucast (v XOR calculateParity v)]"
  by (simp add: prepareDataToSend_def Let_def)

lemma prepareDataToSend_word:
  assumes "wellFormed s"
  shows "receivedWord (take cSizeofRegister (mDataOut (prepareDataToSend v s))) =
           v XOR calculateParity v"
    and "drop cSizeofRegister (mDataOut (prepareDataToSend v s)) =
           drop cSizeofRegister (mDataOut s)"
proof -
  have len: "length (mDataOut s) = 8"
    using assms by (simp add: wellFormed_def cSizeofRegister_def)
  show "receivedWord (take cSizeofRegister (mDataOut (prepareDataToSend v s))) =
          v XOR calculateParity v"
    unfolding prepareDataToSend_out cSizeofRegister_def update4(1) [OF len]
    by (rule bytes_word)
  show "drop cSizeofRegister (mDataOut (prepareDataToSend v s)) =
          drop cSizeofRegister (mDataOut s)"
    unfolding prepareDataToSend_out cSizeofRegister_def update4(2) [OF len]
    by (rule refl)
qed

lemma wellFormed_constructed: "wellFormed (constructed a)"
  by (simp add: wellFormed_def constructed_def cSizeofRegister_def cRegisterCount_def)

section \<open>Properties: one transfer\<close>

lemma spiTransfer_Some:
  "aCommand < cRegisterCount \<Longrightarrow> \<exists>r s'. spiTransfer aCommand aDelay s = Some (r, s')"
  by (simp add: spiTransfer_def Let_def case_prod_beta)

lemma spiTransfer_None:
  "\<not> aCommand < cRegisterCount \<Longrightarrow> spiTransfer aCommand aDelay s = None"
  by (simp add: spiTransfer_def Let_def case_prod_beta)

lemma spiTransfer_frame:
  assumes "spiTransfer aCommand aDelay s = Some (r, s')"
  shows "mWriteCache s' = mWriteCache s" "mWriteDelay s' = mWriteDelay s"
    "mDataOut s' = mDataOut s" "spi (mInterface s') = spi (mInterface s)"
    "mReadCache s' = (mReadCache s)[unat aCommand := r]"
    "mSpiFailed s \<Longrightarrow> mSpiFailed s'"
    "length (mDataIn s) = 8 \<Longrightarrow> length (mDataIn s') = 8"
  using assms
  by (auto simp add: spiTransfer_def Let_def case_prod_beta split: if_splits)

lemma spiTransfer_result:
  assumes "spiTransfer aCommand aDelay s = Some (r, s')"
  shows "r = transferResult s"
    and "calls (mInterface s') = calls (mInterface s) @ transferCalls s aDelay"
    and "mSpiFailed s' \<longleftrightarrow> transferResult s = cInvalidResponse"
    and "exchanges (mInterface s') =
           exchanges (mInterface s) +
             (if mSpiFailed s then 0 else if firstResult s \<noteq> cOk then 1 else 2)"
  using assms
  by (auto simp add: spiTransfer_def Let_def case_prod_beta transferResult_def transferCalls_def
      firstResult_def secondResult_def secondWord_def cInvalidResponse_def calculateParity_0
      split: if_splits)

section \<open>Properties: reads and writes\<close>

lemma fatalErrors_append: "fatalErrors (xs @ ys) = fatalErrors xs @ fatalErrors ys"
  by (induction xs rule: fatalErrors.induct) simp_all

lemma fatalErrors_transferCalls:
  "fatalErrors (transferCalls s aDelay) =
     (if mSpiFailed s then []
      else if firstResult s \<noteq> cOk \<or> secondResult s \<noteq> cOk then [cCommunication]
      else if calculateParity (secondWord s) = cInvalidParity then [cParity]
      else [])"
  by (simp add: transferCalls_def)

lemma transferCalls_first_exchange:
  "\<not> mSpiFailed s \<Longrightarrow>
   transferCalls s aDelay ! Suc 0 = spiTransmitReceive (take cSizeofRegister (mDataOut s))"
  by (simp add: transferCalls_def)

lemma prepared_observations [simp]:
  "firstResult (prepareDataToSend v s) = firstResult s"
  "secondResult (prepareDataToSend v s) = secondResult s"
  "secondWord (prepareDataToSend v s) = secondWord s"
  by (simp_all add: firstResult_def secondResult_def secondWord_def)

lemma first_exchange_sent:
  assumes "spiTransfer aCommand aDelay (prepareDataToSend v s) = Some (r, s')"
    and "\<not> mSpiFailed s" and "wellFormed s"
  shows "\<exists>tx. calls (mInterface s') ! Suc (length (calls (mInterface s))) = spiTransmitReceive tx \<and>
           receivedWord tx = v XOR calculateParity v"
proof -
  have "calls (mInterface s') =
          calls (mInterface s) @ transferCalls (prepareDataToSend v s) aDelay"
    using spiTransfer_result(2) [OF assms(1)] by simp
  then have "calls (mInterface s') ! Suc (length (calls (mInterface s))) =
          transferCalls (prepareDataToSend v s) aDelay ! Suc 0"
    by (simp add: nth_append)
  also have "\<dots> = spiTransmitReceive (take cSizeofRegister (mDataOut (prepareDataToSend v s)))"
    using assms(2) by (simp add: transferCalls_first_exchange)
  finally show ?thesis
    using prepareDataToSend_word(1) [OF assms(3)] by blast
qed

lemma parity_check:
  assumes "spiTransfer aCommand aDelay s = Some (r, s')"
    and "\<not> mSpiFailed s" "firstResult s = cOk" "secondResult s = cOk" "wellFormed s"
  shows "if xorFold (secondWord s) = 0
         then r = cInvalidResponse \<and> mSpiFailed s' \<and>
              fatalErrors (calls (mInterface s')) = fatalErrors (calls (mInterface s)) @ [cParity]
         else r = secondWord s \<and> xorFold r = 1 \<and> mReadCache s' ! unat aCommand = r \<and>
              \<not> mSpiFailed s'"
proof -
  have idx: "unat aCommand < length (mReadCache s)"
    using assms(1,5) unat_index [of aCommand]
    by (cases "aCommand < cRegisterCount")
       (simp_all add: spiTransfer_None wellFormed_def cRegisterCount_def)
  note res = spiTransfer_result [OF assms(1)] spiTransfer_frame(5) [OF assms(1)]
  show ?thesis
  proof (cases "xorFold (secondWord s) = 0")
    case True
    then have "calculateParity (secondWord s) = cInvalidParity"
      by (simp add: parity_invalid_iff)
    then show ?thesis
      using res assms(2-4) True
      by (simp add: transferResult_def fatalErrors_append fatalErrors_transferCalls)
  next
    case False
    then have one: "xorFold (secondWord s) = 1"
      using xorFold_cases [of "secondWord s"] by simp
    then have "calculateParity (secondWord s) \<noteq> cInvalidParity"
      by (simp add: parity_valid_iff)
    moreover have "secondWord s \<noteq> cInvalidResponse"
      using one by (auto simp add: cInvalidResponse_def xorFold_0)
    ultimately show ?thesis
      using res assms(2-4) False one idx
      by (simp add: transferResult_def)
  qed
qed

lemma read_unfold:
  "aCommand < cRegisterCount \<Longrightarrow>
   read aCommand s =
     spiTransfer aCommand cNoDelay
       (prepareDataToSend (cFixedPatternValues ! unat aCommand OR cMaskRead) s)"
  by (simp add: read_def)

lemma transferResult_valid:
  "transferResult s \<noteq> cInvalidResponse \<Longrightarrow> xorFold (transferResult s) = 1"
  by (auto simp add: transferResult_def parity_valid_iff split: if_splits)

lemma write_unfold:
  "aCommand < cRegisterCount \<Longrightarrow>
   write_cmd aCommand aValue s =
     (case spiTransfer aCommand (mWriteDelay s) (beforeTransfer aCommand aValue s) of
        None \<Rightarrow> None
      | Some (r, s') \<Rightarrow> Some (r \<noteq> cInvalidResponse, s'))"
  by (simp add: write_cmd_def beforeTransfer_def adjusted_def Let_def)

lemma beforeTransfer_fields [simp]:
  "mSpiFailed (beforeTransfer aCommand aValue s) = mSpiFailed s"
  "mReadCache (beforeTransfer aCommand aValue s) = mReadCache s"
  "mWriteCache (beforeTransfer aCommand aValue s) =
     (mWriteCache s)[unat aCommand := adjusted aCommand aValue]"
  "mWriteDelay (beforeTransfer aCommand aValue s) = cNoDelay"
  "mDataIn (beforeTransfer aCommand aValue s) = mDataIn s"
  "mInterface (beforeTransfer aCommand aValue s) = mInterface s"
  "mDataOut (beforeTransfer aCommand aValue s) =
     mDataOut (prepareDataToSend (adjusted aCommand aValue) s)"
  "firstResult (beforeTransfer aCommand aValue s) = firstResult s"
  "secondResult (beforeTransfer aCommand aValue s) = secondResult s"
  "secondWord (beforeTransfer aCommand aValue s) = secondWord s"
  by (simp_all add: beforeTransfer_def firstResult_def secondResult_def secondWord_def
      prepareDataToSend_def Let_def)

lemma transferResult_prepared [simp]:
  "transferResult (prepareDataToSend v s) = transferResult s"
  "transferResult (beforeTransfer aCommand aValue s) = transferResult s"
  by (simp_all add: transferResult_def)

lemma write_cases:
  assumes "aCommand < cRegisterCount"
  obtains s' where
    "spiTransfer aCommand (mWriteDelay s) (beforeTransfer aCommand aValue s) =
       Some (transferResult s, s')"
    "write_cmd aCommand aValue s = Some (transferResult s \<noteq> cInvalidResponse, s')"
proof -
  obtain r s' where
    eq: "spiTransfer aCommand (mWriteDelay s) (beforeTransfer aCommand aValue s) = Some (r, s')"
    using spiTransfer_Some [OF assms] by blast
  have "r = transferResult s"
    using spiTransfer_result(1) [OF eq] by simp
  with eq that show ?thesis
    by (simp add: write_unfold [OF assms])
qed

lemma read_cases:
  assumes "aCommand < cRegisterCount"
  obtains s' where
    "spiTransfer aCommand cNoDelay
       (prepareDataToSend (cFixedPatternValues ! unat aCommand OR cMaskRead) s) =
       Some (transferResult s, s')"
    "read aCommand s = Some (transferResult s, s')"
proof -
  obtain r s' where
    eq: "spiTransfer aCommand cNoDelay
       (prepareDataToSend (cFixedPatternValues ! unat aCommand OR cMaskRead) s) = Some (r, s')"
    using spiTransfer_Some [OF assms] by blast
  have "r = transferResult s"
    using spiTransfer_result(1) [OF eq] by simp
  with eq that show ?thesis
    by (simp add: read_unfold [OF assms])
qed

lemma wellFormed_beforeTransfer:
  "wellFormed s \<Longrightarrow> wellFormed (s\<lparr>mWriteCache := (mWriteCache s)[i := v]\<rparr>)"
  by (simp add: wellFormed_def)

section \<open>C3: parity of the words on the wire\<close>

text \<open>
  C3, as amended. \<^verbatim>\<open>prepareDataToSend\<close> flips the low bit of the value exactly when needed to
  make the exclusive-or fold of the 32 bits of the phase-1 word one, that is, to give the word
  an odd number of set bits (odd parity); the other 31 bits are those of the value. The first
  exchange of every read and of every write on a driver whose latch is clear transmits such a
  word. The check \<^verbatim>\<open>calculateParity w != cInvalidParity\<close> holds exactly of the words with an
  odd number of set bits. On the way back, when both exchanges report \<^verbatim>\<open>cOk\<close>, a returned
  word whose fold is zero sets the latch and notifies \<^verbatim>\<open>cParity\<close>; a returned word whose
  fold is one is returned and stored in the read cache, so the value a successful write leaves
  in the read cache has fold one.
\<close>

theorem outgoing_word_odd_parity:
  assumes "wellFormed s" and "aCommand < cRegisterCount" and "\<not> mSpiFailed s"
  shows
    "(let sent = receivedWord (take cSizeofRegister (mDataOut (prepareDataToSend aValue s)))
      in sent = aValue XOR calculateParity aValue \<and> drop_bit 1 sent = drop_bit 1 aValue \<and>
         xorFold sent = 1 \<and> odd (setBits 32 sent)) \<and>
     (calculateParity w \<noteq> cInvalidParity \<longleftrightarrow> odd (setBits 32 w)) \<and>
     (xorFold w = 1 \<longleftrightarrow> odd (setBits 32 w)) \<and>
     (case read aCommand s of
        None \<Rightarrow> False
      | Some (r, s') \<Rightarrow>
          \<exists>tx. calls (mInterface s') ! Suc (length (calls (mInterface s))) =
                  spiTransmitReceive tx \<and> xorFold (receivedWord tx) = 1) \<and>
     (case write_cmd aCommand aValue s of
        None \<Rightarrow> False
      | Some (ok, s') \<Rightarrow>
          (\<exists>tx. calls (mInterface s') ! Suc (length (calls (mInterface s))) =
                  spiTransmitReceive tx \<and> xorFold (receivedWord tx) = 1) \<and>
          (ok \<longrightarrow> xorFold (mReadCache s' ! unat aCommand) = 1)) \<and>
     (case spiTransfer aCommand aDelay s of
        None \<Rightarrow> False
      | Some (r, s') \<Rightarrow>
          firstResult s = cOk \<and> secondResult s = cOk \<longrightarrow>
            (if xorFold (secondWord s) = 0
             then r = cInvalidResponse \<and> mSpiFailed s' \<and>
                  fatalErrors (calls (mInterface s')) =
                    fatalErrors (calls (mInterface s)) @ [cParity]
             else r = secondWord s \<and> xorFold r = 1 \<and>
                  mReadCache s' ! unat aCommand = r \<and> \<not> mSpiFailed s'))"
proof -
  have idx: "unat aCommand < length (mReadCache s)"
    using assms(1) unat_index [OF assms(2)] by (simp add: wellFormed_def cRegisterCount_def)
  have p1: "let sent = receivedWord (take cSizeofRegister (mDataOut (prepareDataToSend aValue s)))
      in sent = aValue XOR calculateParity aValue \<and> drop_bit 1 sent = drop_bit 1 aValue \<and>
         xorFold sent = 1 \<and> odd (setBits 32 sent)"
    using sent_upper_bits [of aValue] sent_xorFold [of aValue]
    by (simp add: prepareDataToSend_word(1) [OF assms(1)] xorFold_odd)
  have p0: "(calculateParity w \<noteq> cInvalidParity \<longleftrightarrow> odd (setBits 32 w)) \<and>
     (xorFold w = 1 \<longleftrightarrow> odd (setBits 32 w))"
    using parity_valid_counts [of w] xorFold_odd [of w] by simp
  have p2: "case read aCommand s of
        None \<Rightarrow> False
      | Some (r, s') \<Rightarrow>
          \<exists>tx. calls (mInterface s') ! Suc (length (calls (mInterface s))) =
                  spiTransmitReceive tx \<and> xorFold (receivedWord tx) = 1"
  proof -
    obtain s' where eq:
      "spiTransfer aCommand cNoDelay
         (prepareDataToSend (cFixedPatternValues ! unat aCommand OR cMaskRead) s) =
         Some (transferResult s, s')"
      "read aCommand s = Some (transferResult s, s')"
      using read_cases [OF assms(2)] by blast
    show ?thesis
      using first_exchange_sent [OF eq(1) assms(3) assms(1)] eq(2)
      by (auto simp add: sent_xorFold)
  qed
  have p3: "case write_cmd aCommand aValue s of
        None \<Rightarrow> False
      | Some (ok, s') \<Rightarrow>
          (\<exists>tx. calls (mInterface s') ! Suc (length (calls (mInterface s))) =
                  spiTransmitReceive tx \<and> xorFold (receivedWord tx) = 1) \<and>
          (ok \<longrightarrow> xorFold (mReadCache s' ! unat aCommand) = 1)"
  proof -
    obtain s' where eq:
      "spiTransfer aCommand (mWriteDelay s) (beforeTransfer aCommand aValue s) =
         Some (transferResult s, s')"
      "write_cmd aCommand aValue s = Some (transferResult s \<noteq> cInvalidResponse, s')"
      using write_cases [OF assms(2)] by blast
    let ?s1 = "s\<lparr>mWriteCache := (mWriteCache s)[unat aCommand := adjusted aCommand aValue]\<rparr>
                \<lparr>mWriteDelay := cNoDelay\<rparr>"
    have bt: "beforeTransfer aCommand aValue s =
                prepareDataToSend (adjusted aCommand aValue) ?s1"
      by (simp add: beforeTransfer_def prepareDataToSend_def Let_def)
    have wf1: "wellFormed ?s1" using assms(1) by (simp add: wellFormed_def)
    have nf1: "\<not> mSpiFailed ?s1" using assms(3) by simp
    have sent: "\<exists>tx. calls (mInterface s') ! Suc (length (calls (mInterface s))) =
                  spiTransmitReceive tx \<and> xorFold (receivedWord tx) = 1"
      using first_exchange_sent [OF eq(1) [unfolded bt] nf1 wf1]
      by (auto simp add: sent_xorFold)
    have "mReadCache s' ! unat aCommand = transferResult s"
      using spiTransfer_frame(5) [OF eq(1)] idx by simp
    then show ?thesis
      using sent eq(2) by (simp add: transferResult_valid)
  qed
  have p4: "case spiTransfer aCommand aDelay s of
        None \<Rightarrow> False
      | Some (r, s') \<Rightarrow>
          firstResult s = cOk \<and> secondResult s = cOk \<longrightarrow>
            (if xorFold (secondWord s) = 0
             then r = cInvalidResponse \<and> mSpiFailed s' \<and>
                  fatalErrors (calls (mInterface s')) =
                    fatalErrors (calls (mInterface s)) @ [cParity]
             else r = secondWord s \<and> xorFold r = 1 \<and>
                  mReadCache s' ! unat aCommand = r \<and> \<not> mSpiFailed s')"
  proof -
    obtain r s' where eq: "spiTransfer aCommand aDelay s = Some (r, s')"
      using spiTransfer_Some [OF assms(2)] by blast
    show ?thesis
      using parity_check [OF eq assms(3) _ _ assms(1)] eq by auto
  qed
  from p1 p0 p2 p3 p4 show ?thesis by blast
qed

lemmas eval_defs =
  write_cmd_def read_def spiTransfer_def prepareDataToSend_def invoke_def transmitReceive_def
  receivedWord_def calculateParity_def constructed_def answersOk_def Let_def
  cRegisterCount_def cSizeofRegister_def cInvalidResponse_def cInvalidParity_def cNoDelay_def
  cMaskRead_def cFixedPatternMasks_def cFixedPatternValues_def

text \<open>
  C3 as stated fails: writing the value 0 to register 0 transmits the bytes 00 00 00 01, a
  word with one set bit, whose fold is one, not zero; the write succeeds on the answer
  \<open>0x30000001\<close>, and the value it commits to the read cache has three set bits and fold one
  as well.
\<close>

theorem outgoing_word_parity_counterexample:
  "(case write_cmd 0 0 (constructed answersOk) of
      None \<Rightarrow> False
    | Some (ok, s') \<Rightarrow>
        ok \<and> calls (mInterface s') ! 1 = spiTransmitReceive [0, 0, 0, 1] \<and>
        mReadCache s' ! 0 = 0x30000001) \<and>
   xorFold (receivedWord [0, 0, 0, 1]) \<noteq> 0 \<and> xorFold 0x30000001 \<noteq> 0 \<and>
   setBits 32 (receivedWord [0, 0, 0, 1]) = 1 \<and> setBits 32 0x30000001 = 3"
  by (simp add: eval_defs xorFold_def setBits_def upt_rec)

text \<open>The theorem of C3 at register 3 of a freshly constructed driver.\<close>

theorem outgoing_word_odd_parity_witness:
  "wellFormed (constructed answersOk) \<and> (3::u32) < cRegisterCount \<and>
   \<not> mSpiFailed (constructed answersOk) \<and>
   firstResult (constructed answersOk) = cOk \<and> secondResult (constructed answersOk) = cOk \<and>
   xorFold (secondWord (constructed answersOk)) \<noteq> 0 \<and>
   xorFold (receivedWord (take cSizeofRegister
      (mDataOut (prepareDataToSend 0x04000000 (constructed answersOk))))) = 1 \<and>
   odd (setBits 32 (receivedWord (take cSizeofRegister
      (mDataOut (prepareDataToSend 0x04000000 (constructed answersOk)))))) \<and>
   (calculateParity 0x04000000 \<noteq> cInvalidParity \<longleftrightarrow> odd (setBits 32 0x04000000)) \<and>
   (case write_cmd 3 0x04000000 (constructed answersOk) of
      None \<Rightarrow> False
    | Some (ok, s') \<Rightarrow>
        (\<exists>tx. calls (mInterface s') ! Suc (length (calls (mInterface (constructed answersOk)))) =
                 spiTransmitReceive tx \<and> xorFold (receivedWord tx) = 1)) \<and>
   (case spiTransfer 3 2 (constructed answersOk) of
      None \<Rightarrow> False
    | Some (r, s') \<Rightarrow>
        r = secondWord (constructed answersOk) \<and> xorFold r = 1 \<and>
        mReadCache s' ! unat (3::u32) = r \<and> \<not> mSpiFailed s')"
proof -
  have h1: "wellFormed (constructed answersOk)" by (rule wellFormed_constructed)
  have h2: "(3::u32) < cRegisterCount" by (simp add: cRegisterCount_def)
  have h3: "\<not> mSpiFailed (constructed answersOk)" by (simp add: constructed_def)
  have h4: "firstResult (constructed answersOk) = cOk"
    and h5: "secondResult (constructed answersOk) = cOk"
    by (simp_all add: firstResult_def secondResult_def constructed_def answersOk_def)
  have h6: "xorFold (secondWord (constructed answersOk)) \<noteq> 0"
    by (simp add: secondWord_def constructed_def answersOk_def receivedWord_def xorFold_def)
  show ?thesis
    using outgoing_word_odd_parity [OF h1 h2 h3, of "0x04000000" "0x04000000" 2] h1 h2 h3 h4 h5 h6
    by (auto simp add: Let_def split: option.splits)
qed

lemma delays_append: "delays (xs @ ys) = delays xs @ delays ys"
  by (induction xs rule: delays.induct) simp_all

lemma delays_transferCalls: "delays (transferCalls s aDelay) = [aDelay]"
  by (simp add: transferCalls_def)

lemma transferCalls_latched:
  "mSpiFailed s \<Longrightarrow>
   transferCalls s aDelay =
     [enableSpiTransfer True, enableSpiTransfer False, delayMs aDelay,
      enableSpiTransfer True, enableSpiTransfer False]"
  by (simp add: transferCalls_def)

lemma transferCalls_prepared [simp]:
  "transferCalls (beforeTransfer aCommand aValue s) aDelay =
     transferCalls (prepareDataToSend (adjusted aCommand aValue) s) aDelay"
  by (simp add: transferCalls_def)

section \<open>C4: the write cache takes the adjusted value before the transfer\<close>

text \<open>
  C4, as amended. \<^verbatim>\<open>write\<close> hands \<^verbatim>\<open>spiTransfer\<close> a state whose write-cache slot already
  holds the fixed-pattern-adjusted value, and \<^verbatim>\<open>spiTransfer\<close> never changes the write cache:
  whatever the outcome of the transfer, the slot holds the adjusted value afterwards, never
  the raw requested bits. The phase-1 word on the wire is the adjusted value with its low bit
  flipped when the parity asks for it; the write cache keeps the value without that flip.
\<close>


theorem write_stores_adjusted_value_first:
  assumes "wellFormed s" and "aCommand < cRegisterCount"
  shows
    "write_cmd aCommand aValue s =
       (case spiTransfer aCommand (mWriteDelay s) (beforeTransfer aCommand aValue s) of
          None \<Rightarrow> None
        | Some (r, s') \<Rightarrow> Some (r \<noteq> cInvalidResponse, s')) \<and>
     mWriteCache (beforeTransfer aCommand aValue s) ! unat aCommand = adjusted aCommand aValue \<and>
     (case write_cmd aCommand aValue s of
        None \<Rightarrow> False
      | Some (ok, s') \<Rightarrow>
          mWriteCache s' = (mWriteCache s)[unat aCommand := adjusted aCommand aValue] \<and>
          mWriteCache s' ! unat aCommand = adjusted aCommand aValue \<and>
          (\<not> mSpiFailed s \<longrightarrow>
             (\<exists>tx. calls (mInterface s') ! Suc (length (calls (mInterface s))) =
                     spiTransmitReceive tx \<and>
                   receivedWord tx =
                     adjusted aCommand aValue XOR calculateParity (adjusted aCommand aValue) \<and>
                   drop_bit 1 (receivedWord tx) = drop_bit 1 (adjusted aCommand aValue))))"
proof -
  have idx: "unat aCommand < length (mWriteCache s)"
    using assms(1) unat_index [OF assms(2)] by (simp add: wellFormed_def cRegisterCount_def)
  obtain s' where eq:
    "spiTransfer aCommand (mWriteDelay s) (beforeTransfer aCommand aValue s) =
       Some (transferResult s, s')"
    "write_cmd aCommand aValue s = Some (transferResult s \<noteq> cInvalidResponse, s')"
    using write_cases [OF assms(2)] by blast
  let ?s1 = "s\<lparr>mWriteCache := (mWriteCache s)[unat aCommand := adjusted aCommand aValue]\<rparr>
              \<lparr>mWriteDelay := cNoDelay\<rparr>"
  have bt: "beforeTransfer aCommand aValue s = prepareDataToSend (adjusted aCommand aValue) ?s1"
    by (simp add: beforeTransfer_def prepareDataToSend_def Let_def)
  have wf1: "wellFormed ?s1" using assms(1) by (simp add: wellFormed_def)
  have cache: "mWriteCache s' = (mWriteCache s)[unat aCommand := adjusted aCommand aValue]"
    using spiTransfer_frame(1) [OF eq(1)] by simp
  have sent: "\<exists>tx. calls (mInterface s') ! Suc (length (calls (mInterface s))) =
                     spiTransmitReceive tx \<and>
                   receivedWord tx =
                     adjusted aCommand aValue XOR calculateParity (adjusted aCommand aValue) \<and>
                   drop_bit 1 (receivedWord tx) = drop_bit 1 (adjusted aCommand aValue)"
    if "\<not> mSpiFailed s"
  proof -
    have nf1: "\<not> mSpiFailed ?s1" using that by simp
    obtain tx where tx: "calls (mInterface s') ! Suc (length (calls (mInterface ?s1))) =
        spiTransmitReceive tx"
      "receivedWord tx = adjusted aCommand aValue XOR calculateParity (adjusted aCommand aValue)"
      using first_exchange_sent [OF eq(1) [unfolded bt] nf1 wf1] by blast
    have "drop_bit 1 (receivedWord tx) = drop_bit 1 (adjusted aCommand aValue)"
      unfolding tx(2) by (rule sent_upper_bits)
    with tx show ?thesis by auto
  qed
  show ?thesis
    using eq cache idx sent by (simp add: write_unfold [OF assms(2)])
qed

lemmas eval_defs2 = eval_defs answersFailAt_def adjusted_def

text \<open>
  C4 as stated fails in its last clause: writing 0 to register 3 caches \<open>0x30000000\<close> and
  transmits the bytes 30 00 00 01.
\<close>

theorem write_transmits_parity_adjusted_counterexample:
  "(case write_cmd 3 0 (constructed answersOk) of
      None \<Rightarrow> False
    | Some (ok, s') \<Rightarrow>
        mWriteCache s' ! 3 = 0x30000000 \<and>
        calls (mInterface s') ! 1 = spiTransmitReceive [0x30, 0, 0, 1]) \<and>
   adjusted 3 0 = 0x30000000 \<and> receivedWord [0x30, 0, 0, 1] \<noteq> adjusted 3 0"
  by (simp add: eval_defs2)

text \<open>The theorem of C4 on a peripheral that times out at once: the write fails and the slot
  holds the adjusted value.\<close>

theorem write_stores_adjusted_value_first_witness:
  "wellFormed (constructed (answersFailAt 0)) \<and> (3::u32) < cRegisterCount \<and>
   \<not> mSpiFailed (constructed (answersFailAt 0)) \<and>
   adjusted 3 0x0FFFFFFF = 0x37FFFFFF \<and>
   (case write_cmd 3 0x0FFFFFFF (constructed (answersFailAt 0)) of
      None \<Rightarrow> False
    | Some (ok, s') \<Rightarrow>
        mWriteCache s' ! unat (3::u32) = adjusted 3 0x0FFFFFFF \<and>
        (\<exists>tx. calls (mInterface s') !
                 Suc (length (calls (mInterface (constructed (answersFailAt 0))))) =
                 spiTransmitReceive tx \<and>
               drop_bit 1 (receivedWord tx) = drop_bit 1 (adjusted 3 0x0FFFFFFF)))"
proof -
  have h1: "wellFormed (constructed (answersFailAt 0))" by (rule wellFormed_constructed)
  have h2: "(3::u32) < cRegisterCount" by (simp add: cRegisterCount_def)
  have h3: "\<not> mSpiFailed (constructed (answersFailAt 0))" by (simp add: constructed_def)
  have h4: "adjusted 3 0x0FFFFFFF = 0x37FFFFFF"
    by (simp add: adjusted_def cMaskRead_def cFixedPatternMasks_def cFixedPatternValues_def)
  show ?thesis
    using write_stores_adjusted_value_first [OF h1 h2, of "0x0FFFFFFF"] h1 h2 h3 h4
    by (auto split: option.splits)
qed

section \<open>C9: the pending delay\<close>

text \<open>
  C9. \<^verbatim>\<open>write\<close> calls \<^verbatim>\<open>spiTransfer\<close> with the pending delay as its argument, on a state
  whose pending delay is already zero; the transfer makes exactly one delay call, with that
  argument, between the two phases, and the pending delay is zero after every write, whatever
  its outcome. \<^verbatim>\<open>read\<close> delays by \<^verbatim>\<open>cNoDelay\<close> and leaves the pending delay as it was.
\<close>


theorem pending_delay_is_one_shot:
  assumes "aCommand < cRegisterCount"
  shows
    "write_cmd aCommand aValue s =
       (case spiTransfer aCommand (mWriteDelay s) (beforeTransfer aCommand aValue s) of
          None \<Rightarrow> None
        | Some (r, s') \<Rightarrow> Some (r \<noteq> cInvalidResponse, s')) \<and>
     mWriteDelay (beforeTransfer aCommand aValue s) = cNoDelay \<and>
     (case write_cmd aCommand aValue s of
        None \<Rightarrow> False
      | Some (ok, s') \<Rightarrow>
          mWriteDelay s' = cNoDelay \<and>
          delays (calls (mInterface s')) = delays (calls (mInterface s)) @ [mWriteDelay s] \<and>
          (\<not> mSpiFailed s \<and> firstResult s = cOk \<longrightarrow>
             (\<exists>tx1 tx2 rest. calls (mInterface s') =
                 calls (mInterface s) @
                 [enableSpiTransfer True, spiTransmitReceive tx1, enableSpiTransfer False,
                  delayMs (mWriteDelay s),
                  enableSpiTransfer True, spiTransmitReceive tx2, enableSpiTransfer False]
                 @ rest))) \<and>
     (case read aCommand s of
        None \<Rightarrow> False
      | Some (r, s') \<Rightarrow>
          mWriteDelay s' = mWriteDelay s \<and>
          delays (calls (mInterface s')) = delays (calls (mInterface s)) @ [cNoDelay])"
proof -
  obtain s' where w:
    "spiTransfer aCommand (mWriteDelay s) (beforeTransfer aCommand aValue s) =
       Some (transferResult s, s')"
    "write_cmd aCommand aValue s = Some (transferResult s \<noteq> cInvalidResponse, s')"
    using write_cases [OF assms] by blast
  obtain s'' where r:
    "spiTransfer aCommand cNoDelay
       (prepareDataToSend (cFixedPatternValues ! unat aCommand OR cMaskRead) s) =
       Some (transferResult s, s'')"
    "read aCommand s = Some (transferResult s, s'')"
    using read_cases [OF assms] by blast
  have wd: "mWriteDelay s' = cNoDelay"
    using spiTransfer_frame(2) [OF w(1)] by simp
  have wc: "calls (mInterface s') =
      calls (mInterface s) @ transferCalls (beforeTransfer aCommand aValue s) (mWriteDelay s)"
    using spiTransfer_result(2) [OF w(1)] by simp
  have wdl: "delays (calls (mInterface s')) = delays (calls (mInterface s)) @ [mWriteDelay s]"
    unfolding wc by (simp add: delays_append delays_transferCalls)
  have wph: "\<exists>tx1 tx2 rest. calls (mInterface s') =
                 calls (mInterface s) @
                 [enableSpiTransfer True, spiTransmitReceive tx1, enableSpiTransfer False,
                  delayMs (mWriteDelay s),
                  enableSpiTransfer True, spiTransmitReceive tx2, enableSpiTransfer False]
                 @ rest"
    if "\<not> mSpiFailed s" "firstResult s = cOk"
    unfolding wc using that by (simp add: transferCalls_def)
  have rd: "mWriteDelay s'' = mWriteDelay s"
    using spiTransfer_frame(2) [OF r(1)] by simp
  have rdl: "delays (calls (mInterface s'')) = delays (calls (mInterface s)) @ [cNoDelay]"
    using spiTransfer_result(2) [OF r(1)] by (simp add: delays_append delays_transferCalls)
  show ?thesis
    using w(2) r(2) wd wdl wph rd rdl by (simp add: write_unfold [OF assms])
qed

text \<open>The theorem of C9 with a pending delay of 2 ms.\<close>

theorem pending_delay_is_one_shot_witness:
  "(9::u32) < cRegisterCount \<and>
   \<not> mSpiFailed (setWriteDelay 2 (constructed answersOk)) \<and>
   firstResult (setWriteDelay 2 (constructed answersOk)) = cOk \<and>
   mWriteDelay (setWriteDelay 2 (constructed answersOk)) = 2 \<and>
   (case write_cmd 9 0 (setWriteDelay 2 (constructed answersOk)) of
      None \<Rightarrow> False
    | Some (ok, s') \<Rightarrow> mWriteDelay s' = cNoDelay \<and> delays (calls (mInterface s')) = [2]) \<and>
   (case read 9 (setWriteDelay 2 (constructed answersOk)) of
      None \<Rightarrow> False
    | Some (r, s') \<Rightarrow> mWriteDelay s' = 2 \<and> delays (calls (mInterface s')) = [cNoDelay])"
proof -
  have h1: "(9::u32) < cRegisterCount" by (simp add: cRegisterCount_def)
  have h2: "\<not> mSpiFailed (setWriteDelay 2 (constructed answersOk))"
    and h3: "firstResult (setWriteDelay 2 (constructed answersOk)) = cOk"
    and h4: "mWriteDelay (setWriteDelay 2 (constructed answersOk)) = 2"
    and h5: "calls (mInterface (setWriteDelay 2 (constructed answersOk))) = []"
    by (simp_all add: setWriteDelay_def constructed_def firstResult_def answersOk_def)
  show ?thesis
    using pending_delay_is_one_shot [OF h1, of 0 "setWriteDelay 2 (constructed answersOk)"]
      h1 h2 h3 h4 h5
    by (auto split: option.splits)
qed

section \<open>C1: transfers while the fault latch is set\<close>

text \<open>
  What a read and a write do while the latch is set, call by call: the chip select is toggled
  twice around the delay call and nothing else is asked of the interface.
\<close>

lemma latched_transfer_calls:
  assumes "mSpiFailed s" and "aCommand < cRegisterCount"
  shows
    "(case read aCommand s of
        None \<Rightarrow> False
      | Some (r, s') \<Rightarrow>
          r = cInvalidResponse \<and> mSpiFailed s' \<and>
          exchanges (mInterface s') = exchanges (mInterface s) \<and>
          calls (mInterface s') =
            calls (mInterface s) @
            [enableSpiTransfer True, enableSpiTransfer False, delayMs cNoDelay,
             enableSpiTransfer True, enableSpiTransfer False] \<and>
          mWriteCache s' = mWriteCache s \<and>
          mReadCache s' = (mReadCache s)[unat aCommand := cInvalidResponse]) \<and>
     (case write_cmd aCommand aValue s of
        None \<Rightarrow> False
      | Some (ok, s') \<Rightarrow>
          \<not> ok \<and> mSpiFailed s' \<and>
          exchanges (mInterface s') = exchanges (mInterface s) \<and>
          calls (mInterface s') =
            calls (mInterface s) @
            [enableSpiTransfer True, enableSpiTransfer False, delayMs (mWriteDelay s),
             enableSpiTransfer True, enableSpiTransfer False] \<and>
          mWriteCache s' = (mWriteCache s)[unat aCommand := adjusted aCommand aValue] \<and>
          mReadCache s' = (mReadCache s)[unat aCommand := cInvalidResponse])"
proof -
  obtain s' where w:
    "spiTransfer aCommand (mWriteDelay s) (beforeTransfer aCommand aValue s) =
       Some (transferResult s, s')"
    "write_cmd aCommand aValue s = Some (transferResult s \<noteq> cInvalidResponse, s')"
    using write_cases [OF assms(2)] by blast
  obtain s'' where r:
    "spiTransfer aCommand cNoDelay
       (prepareDataToSend (cFixedPatternValues ! unat aCommand OR cMaskRead) s) =
       Some (transferResult s, s'')"
    "read aCommand s = Some (transferResult s, s'')"
    using read_cases [OF assms(2)] by blast
  have tr: "transferResult s = cInvalidResponse"
    using assms(1) by (simp add: transferResult_def)
  have pr: "case read aCommand s of
        None \<Rightarrow> False
      | Some (r, s') \<Rightarrow>
          r = cInvalidResponse \<and> mSpiFailed s' \<and>
          exchanges (mInterface s') = exchanges (mInterface s) \<and>
          calls (mInterface s') =
            calls (mInterface s) @
            [enableSpiTransfer True, enableSpiTransfer False, delayMs cNoDelay,
             enableSpiTransfer True, enableSpiTransfer False] \<and>
          mWriteCache s' = mWriteCache s \<and>
          mReadCache s' = (mReadCache s)[unat aCommand := cInvalidResponse]"
    using r(2) tr assms(1) spiTransfer_result(2,3,4) [OF r(1)] spiTransfer_frame(1,5) [OF r(1)]
    by (simp add: transferCalls_latched)
  have pw: "case write_cmd aCommand aValue s of
        None \<Rightarrow> False
      | Some (ok, s') \<Rightarrow>
          \<not> ok \<and> mSpiFailed s' \<and>
          exchanges (mInterface s') = exchanges (mInterface s) \<and>
          calls (mInterface s') =
            calls (mInterface s) @
            [enableSpiTransfer True, enableSpiTransfer False, delayMs (mWriteDelay s),
             enableSpiTransfer True, enableSpiTransfer False] \<and>
          mWriteCache s' = (mWriteCache s)[unat aCommand := adjusted aCommand aValue] \<and>
          mReadCache s' = (mReadCache s)[unat aCommand := cInvalidResponse]"
    using w(2) tr assms(1) spiTransfer_result(2,3,4) [OF w(1)] spiTransfer_frame(1,5) [OF w(1)]
    by (simp add: transferCalls_latched)
  from pr pw show ?thesis by blast
qed

text \<open>
  C1, as amended. Once the latch is set, a read or a write of any register 0..13 returns
  failure, makes no SPI exchange, does not call \<^verbatim>\<open>enableAll\<close>, notifies nobody and leaves the
  latch set. No read-cache or write-cache entry other than that of the addressed register
  changes; a read leaves the whole write cache as it is, and a write stores the adjusted value
  in the write-cache slot of the addressed register.
\<close>

theorem latched_transfer_fails_without_exchange:
  assumes "mSpiFailed s" and "aCommand < cRegisterCount"
  shows
    "(case read aCommand s of
        None \<Rightarrow> False
      | Some (r, s') \<Rightarrow>
          r = cInvalidResponse \<and> mSpiFailed s' \<and>
          exchanges (mInterface s') = exchanges (mInterface s) \<and>
          take (length (calls (mInterface s))) (calls (mInterface s')) = calls (mInterface s) \<and>
          list_all quiet (drop (length (calls (mInterface s))) (calls (mInterface s'))) \<and>
          mWriteCache s' = mWriteCache s \<and>
          length (mReadCache s') = length (mReadCache s) \<and>
          (\<forall>j. j \<noteq> unat aCommand \<longrightarrow> mReadCache s' ! j = mReadCache s ! j)) \<and>
     (case write_cmd aCommand aValue s of
        None \<Rightarrow> False
      | Some (ok, s') \<Rightarrow>
          \<not> ok \<and> mSpiFailed s' \<and>
          exchanges (mInterface s') = exchanges (mInterface s) \<and>
          take (length (calls (mInterface s))) (calls (mInterface s')) = calls (mInterface s) \<and>
          list_all quiet (drop (length (calls (mInterface s))) (calls (mInterface s'))) \<and>
          mWriteCache s' = (mWriteCache s)[unat aCommand := adjusted aCommand aValue] \<and>
          length (mReadCache s') = length (mReadCache s) \<and>
          (\<forall>j. j \<noteq> unat aCommand \<longrightarrow> mReadCache s' ! j = mReadCache s ! j))"
  using latched_transfer_calls [OF assms, of aValue]
  by (auto split: option.splits)

text \<open>
  C1 as stated fails. Register 3 is read and register 4 is written successfully, then a read
  of register 0 times out and sets the latch. A further read of register 3 toggles the chip
  select and replaces the cached \<open>0x30000001\<close> by 0; a further write to register 4 changes
  its write-cache slot from \<open>0x40000000\<close> to \<open>0x40C00000\<close>.
\<close>

theorem latched_transfer_changes_caches_counterexample:
  "(case read 3 (constructed (answersFailAt 4)) of
      None \<Rightarrow> False
    | Some (r1, s1) \<Rightarrow>
        (case write_cmd 4 0 s1 of
           None \<Rightarrow> False
         | Some (ok2, s2) \<Rightarrow>
             (case read 0 s2 of
                None \<Rightarrow> False
              | Some (r3, s3) \<Rightarrow>
                  ok2 \<and> mSpiFailed s3 \<and> mReadCache s3 ! 3 = 0x30000001 \<and>
                  mWriteCache s3 ! 4 = 0x40000000 \<and>
                  (case read 3 s3 of
                     None \<Rightarrow> False
                   | Some (r4, s4) \<Rightarrow>
                       r4 = cInvalidResponse \<and> mReadCache s4 ! 3 = 0 \<and>
                       drop (length (calls (mInterface s3))) (calls (mInterface s4)) =
                         [enableSpiTransfer True, enableSpiTransfer False, delayMs 0,
                          enableSpiTransfer True, enableSpiTransfer False]) \<and>
                  (case write_cmd 4 0x00C00000 s3 of
                     None \<Rightarrow> False
                   | Some (ok, s4) \<Rightarrow> \<not> ok \<and> mWriteCache s4 ! 4 = 0x40C00000))))"
  by (simp add: eval_defs2)

text \<open>The theorem of C1 on a driver whose latch is set.\<close>

theorem latched_transfer_fails_without_exchange_witness:
  "mSpiFailed ((constructed answersOk)\<lparr>mSpiFailed := True\<rparr>) \<and> (5::u32) < cRegisterCount \<and>
   (3::nat) \<noteq> unat (5::u32) \<and>
   (case read 5 ((constructed answersOk)\<lparr>mSpiFailed := True\<rparr>) of
      None \<Rightarrow> False
    | Some (r, s') \<Rightarrow>
        r = cInvalidResponse \<and> mSpiFailed s' \<and> exchanges (mInterface s') = 0 \<and>
        list_all quiet (calls (mInterface s')) \<and>
        mWriteCache s' = replicate 14 0 \<and> mReadCache s' ! 3 = 0) \<and>
   (case write_cmd 5 0x00C00000 ((constructed answersOk)\<lparr>mSpiFailed := True\<rparr>) of
      None \<Rightarrow> False
    | Some (ok, s') \<Rightarrow>
        \<not> ok \<and> mSpiFailed s' \<and> exchanges (mInterface s') = 0 \<and>
        list_all quiet (calls (mInterface s')) \<and>
        mWriteCache s' = (replicate 14 0)[unat (5::u32) := adjusted 5 0x00C00000] \<and>
        mReadCache s' ! 3 = 0)"
proof -
  have h1: "mSpiFailed ((constructed answersOk)\<lparr>mSpiFailed := True\<rparr>)" by simp
  have h2: "(5::u32) < cRegisterCount" by (simp add: cRegisterCount_def)
  have h3: "exchanges (mInterface ((constructed answersOk)\<lparr>mSpiFailed := True\<rparr>)) = 0"
    "calls (mInterface ((constructed answersOk)\<lparr>mSpiFailed := True\<rparr>)) = []"
    "mReadCache ((constructed answersOk)\<lparr>mSpiFailed := True\<rparr>) = replicate 14 0"
    "mWriteCache ((constructed answersOk)\<lparr>mSpiFailed := True\<rparr>) = replicate 14 0"
    by (simp_all add: constructed_def)
  have h4: "(3::nat) \<noteq> unat (5::u32)" by simp
  show ?thesis
    using latched_transfer_fails_without_exchange [OF h1 h2, of "0x00C00000"] h1 h2 h3 h4
    by (auto split: option.splits)
qed

section \<open>Properties: what every transfer preserves\<close>

lemma follows_refl: "follows s s"
  by (simp add: follows_def)

lemma follows_trans:
  assumes "follows a b" and "follows b c"
  shows "follows a c"
proof -
  have 1: "spi (mInterface c) = spi (mInterface a)"
    using assms by (simp add: follows_def)
  have 2: "wellFormed c" if "wellFormed a"
    using assms that by (simp add: follows_def)
  have 3: "mSpiFailed c \<and> exchanges (mInterface c) = exchanges (mInterface a)" if "mSpiFailed a"
    using assms that by (simp add: follows_def)
  have 5: "readCacheInvariant c" if "readCacheInvariant a"
    using assms that by (simp add: follows_def)
  have ab: "length (fatalErrors (calls (mInterface b))) =
       length (fatalErrors (calls (mInterface a))) +
         (if \<not> mSpiFailed a \<and> mSpiFailed b then 1 else 0)"
    and bc: "length (fatalErrors (calls (mInterface c))) =
       length (fatalErrors (calls (mInterface b))) +
         (if \<not> mSpiFailed b \<and> mSpiFailed c then 1 else 0)"
    and lb: "mSpiFailed a \<longrightarrow> mSpiFailed b" and lc: "mSpiFailed b \<longrightarrow> mSpiFailed c"
    using assms by (simp_all add: follows_def)
  have 4: "length (fatalErrors (calls (mInterface c))) =
       length (fatalErrors (calls (mInterface a))) +
         (if \<not> mSpiFailed a \<and> mSpiFailed c then 1 else 0)"
    using ab bc lb lc by (cases "mSpiFailed a"; cases "mSpiFailed b"; cases "mSpiFailed c") simp_all
  show ?thesis
    unfolding follows_def using 1 2 3 4 5 by blast
qed

lemma transferResult_entry:
  "transferResult s = cInvalidResponse \<or> calculateParity (transferResult s) \<noteq> cInvalidParity"
  by (simp add: transferResult_def)

lemma list_all_update:
  "list_all P xs \<Longrightarrow> P v \<Longrightarrow> list_all P (xs[i := v])"
  by (induction xs arbitrary: i) (auto split: nat.splits)

lemma spiTransfer_follows:
  assumes "spiTransfer aCommand aDelay s = Some (r, s')"
  shows "follows s s'"
proof -
  note fr = spiTransfer_frame [OF assms]
  note rs = spiTransfer_result [OF assms]
  have wf: "wellFormed s'" if "wellFormed s"
    using that fr by (simp add: wellFormed_def cSizeofRegister_def)
  have inv: "readCacheInvariant s'" if "readCacheInvariant s"
    using that transferResult_entry [of s] unfolding readCacheInvariant_def fr(5) rs(1)
    by (rule list_all_update)
  have cnt: "length (fatalErrors (calls (mInterface s'))) =
       length (fatalErrors (calls (mInterface s))) +
         (if \<not> mSpiFailed s \<and> mSpiFailed s' then 1 else 0)"
    unfolding rs(2) rs(3)
    by (auto simp add: fatalErrors_append fatalErrors_transferCalls transferResult_def
        cInvalidResponse_def calculateParity_0)
  show ?thesis
    unfolding follows_def using fr(4) fr(6) wf inv cnt rs(4) by simp
qed

lemma follows_same:
  assumes "mInterface t = mInterface s" "mSpiFailed t = mSpiFailed s"
    "mReadCache t = mReadCache s" "wellFormed s \<Longrightarrow> wellFormed t"
  shows "follows s t"
  using assms by (simp add: follows_def readCacheInvariant_def)

lemma follows_prepare: "follows s (prepareDataToSend v s)"
  by (rule follows_same) (simp_all add: wellFormed_def)

lemma follows_beforeTransfer: "follows s (beforeTransfer aCommand aValue s)"
  by (rule follows_same) (simp_all add: wellFormed_def)

lemma read_Some:
  "aCommand < cRegisterCount \<Longrightarrow> \<exists>s'. read aCommand s = Some (transferResult s, s')"
  using read_cases [of aCommand s] by blast

lemma write_Some:
  "aCommand < cRegisterCount \<Longrightarrow>
   \<exists>s'. write_cmd aCommand aValue s = Some (transferResult s \<noteq> cInvalidResponse, s')"
  using write_cases [of aCommand s aValue] by blast

lemma read_in_range: "read aCommand s = Some (r, s') \<Longrightarrow> aCommand < cRegisterCount"
  by (cases "aCommand < cRegisterCount") (simp_all add: read_def)

lemma write_in_range: "write_cmd aCommand aValue s = Some (ok, s') \<Longrightarrow> aCommand < cRegisterCount"
  by (cases "aCommand < cRegisterCount") (simp_all add: write_cmd_def)

lemma read_facts:
  assumes "read aCommand s = Some (r, s')"
  shows "follows s s'"
    and "r = transferResult s"
    and "mSpiFailed s' \<longleftrightarrow> r = cInvalidResponse"
    and "calls (mInterface s') =
           calls (mInterface s) @
           transferCalls (prepareDataToSend (cFixedPatternValues ! unat aCommand OR cMaskRead) s)
             cNoDelay"
    and "mReadCache s' = (mReadCache s)[unat aCommand := r]"
    and "mWriteCache s' = mWriteCache s" and "mWriteDelay s' = mWriteDelay s"
proof -
  have rng: "aCommand < cRegisterCount" using assms by (rule read_in_range)
  have eq: "spiTransfer aCommand cNoDelay
       (prepareDataToSend (cFixedPatternValues ! unat aCommand OR cMaskRead) s) = Some (r, s')"
    using assms by (simp add: read_unfold [OF rng])
  show "follows s s'"
    using follows_trans [OF follows_prepare spiTransfer_follows [OF eq]] .
  show "r = transferResult s" using spiTransfer_result(1) [OF eq] by simp
  show "mSpiFailed s' \<longleftrightarrow> r = cInvalidResponse"
    using spiTransfer_result(1,3) [OF eq] by simp
  show "calls (mInterface s') =
           calls (mInterface s) @
           transferCalls (prepareDataToSend (cFixedPatternValues ! unat aCommand OR cMaskRead) s)
             cNoDelay"
    using spiTransfer_result(2) [OF eq] by simp
  show "mReadCache s' = (mReadCache s)[unat aCommand := r]"
    using spiTransfer_frame(5) [OF eq] by simp
  show "mWriteCache s' = mWriteCache s" using spiTransfer_frame(1) [OF eq] by simp
  show "mWriteDelay s' = mWriteDelay s" using spiTransfer_frame(2) [OF eq] by simp
qed

lemma write_facts:
  assumes "write_cmd aCommand aValue s = Some (ok, s')"
  shows "follows s s'"
    and "ok \<longleftrightarrow> transferResult s \<noteq> cInvalidResponse"
    and "mSpiFailed s' \<longleftrightarrow> \<not> ok"
    and "calls (mInterface s') =
           calls (mInterface s) @
           transferCalls (beforeTransfer aCommand aValue s) (mWriteDelay s)"
    and "mReadCache s' = (mReadCache s)[unat aCommand := transferResult s]"
    and "mWriteCache s' = (mWriteCache s)[unat aCommand := adjusted aCommand aValue]"
    and "mWriteDelay s' = cNoDelay"
proof -
  have rng: "aCommand < cRegisterCount" using assms by (rule write_in_range)
  obtain s1 where eq:
    "spiTransfer aCommand (mWriteDelay s) (beforeTransfer aCommand aValue s) =
       Some (transferResult s, s1)"
    "write_cmd aCommand aValue s = Some (transferResult s \<noteq> cInvalidResponse, s1)"
    using write_cases [OF rng] by blast
  have s1: "s1 = s'" and ok: "ok \<longleftrightarrow> transferResult s \<noteq> cInvalidResponse"
    using assms eq(2) by simp_all
  show "follows s s'"
    using follows_trans [OF follows_beforeTransfer spiTransfer_follows [OF eq(1)]] s1 by simp
  show "ok \<longleftrightarrow> transferResult s \<noteq> cInvalidResponse" by (rule ok)
  show "mSpiFailed s' \<longleftrightarrow> \<not> ok"
    using spiTransfer_result(3) [OF eq(1)] s1 ok by simp
  show "calls (mInterface s') =
           calls (mInterface s) @
           transferCalls (beforeTransfer aCommand aValue s) (mWriteDelay s)"
    using spiTransfer_result(2) [OF eq(1)] s1 by simp
  show "mReadCache s' = (mReadCache s)[unat aCommand := transferResult s]"
    using spiTransfer_frame(5) [OF eq(1)] s1 by simp
  show "mWriteCache s' = (mWriteCache s)[unat aCommand := adjusted aCommand aValue]"
    using spiTransfer_frame(1) [OF eq(1)] s1 by simp
  show "mWriteDelay s' = cNoDelay"
    using spiTransfer_frame(2) [OF eq(1)] s1 by simp
qed

lemma restore_same:
  "read aCommand s = Some (v, s1) \<Longrightarrow> i = unat aCommand \<Longrightarrow>
   s1\<lparr>mReadCache := (mReadCache s1)[i := v]\<rparr> = s1"
  using read_facts(5) [of aCommand s v s1] by simp

lemma readIntoCache_facts:
  assumes "aCommand < cRegisterCount"
  obtains s' where "read aCommand s = Some (transferResult s, s')"
    "readIntoCache aCommand s = Some (mSpiFailed s', s')"
proof -
  obtain s' where rd: "read aCommand s = Some (transferResult s, s')"
    using read_Some [OF assms] by blast
  have "readIntoCache aCommand s = Some (mSpiFailed s', s')"
    using rd restore_same [OF rd refl] by (simp add: readIntoCache_def Let_def)
  with rd that show ?thesis by blast
qed

lemma of_nat_index:
  "command < 14 \<Longrightarrow> (of_nat command :: u32) < cRegisterCount \<and> unat (of_nat command :: u32) = command"
  by (simp add: cRegisterCount_def word_less_nat_alt unat_of_nat)

section \<open>Properties: the loops over the registers\<close>

lemma read_delays:
  "read aCommand s = Some (r, s') \<Longrightarrow>
   delays (calls (mInterface s')) = delays (calls (mInterface s)) @ [cNoDelay]"
  using read_facts(4) [of aCommand s r s'] by (simp add: delays_append delays_transferCalls)

lemma write_delays:
  "write_cmd aCommand aValue s = Some (ok, s') \<Longrightarrow>
   delays (calls (mInterface s')) = delays (calls (mInterface s)) @ [mWriteDelay s]"
  using write_facts(4) [of aCommand aValue s ok s']
  by (simp add: delays_append delays_transferCalls)

lemma readAll_loop_facts:
  assumes "command \<le> 14"
  shows "\<exists>s'. readAllIntoCache_loop True command s = Some s' \<and> follows s s' \<and>
           delays (calls (mInterface s')) =
             delays (calls (mInterface s)) @ replicate (14 - command) cNoDelay"
  using assms
proof (induction "14 - command" arbitrary: command s)
  case 0
  then have "command = 14" by simp
  then show ?case
    by (simp add: readAllIntoCache_loop.simps cRegisterCount_def follows_refl)
next
  case (Suc n)
  then have lt: "command < 14" by simp
  note ix = of_nat_index [OF lt]
  obtain s1 where rd: "read (of_nat command) s = Some (transferResult s, s1)"
    using read_Some ix by blast
  have same: "s1\<lparr>mReadCache := (mReadCache s1)[command := transferResult s]\<rparr> = s1"
    using restore_same [OF rd] ix by simp
  have step: "readAllIntoCache_loop True command s = readAllIntoCache_loop True (Suc command) s1"
    using lt rd same by (subst readAllIntoCache_loop.simps) (simp add: cRegisterCount_def)
  have n: "n = 14 - Suc command" using Suc.hyps(2) by simp
  have le: "Suc command \<le> 14" using lt by simp
  obtain s' where ih: "readAllIntoCache_loop True (Suc command) s1 = Some s'" "follows s1 s'"
    "delays (calls (mInterface s')) =
       delays (calls (mInterface s1)) @ replicate (14 - Suc command) cNoDelay"
    using Suc.hyps(1) [OF n le, of s1] by blast
  have rep: "replicate (14 - command) cNoDelay = cNoDelay # replicate (14 - Suc command) cNoDelay"
  proof -
    have "14 - command = Suc (14 - Suc command)" using lt by arith
    then show ?thesis by (simp only: replicate_Suc)
  qed
  have "follows s s'"
    using follows_trans [OF read_facts(1) [OF rd] ih(2)] .
  moreover have "delays (calls (mInterface s')) =
             delays (calls (mInterface s)) @ replicate (14 - command) cNoDelay"
    unfolding ih(3) read_delays [OF rd] rep by simp
  ultimately show ?case
    using step ih(1) by simp
qed

lemma transferCalls_last:
  "\<not> mSpiFailed s \<Longrightarrow> transferResult s = cInvalidResponse \<Longrightarrow>
   \<exists>e. last (transferCalls s aDelay) = fatalError e"
  by (auto simp add: transferCalls_def transferResult_def cInvalidResponse_def
      calculateParity_0 split: if_splits)

lemma transferCalls_nonempty: "transferCalls s aDelay \<noteq> []"
  by (simp add: transferCalls_def)

lemma write_failure_last:
  assumes "write_cmd aCommand aValue s = Some (False, s')" and "\<not> mSpiFailed s"
  shows "\<exists>e. last (calls (mInterface s')) = fatalError e"
proof -
  have "transferResult (beforeTransfer aCommand aValue s) = cInvalidResponse"
    using write_facts(2) [OF assms(1)] by simp
  moreover have "\<not> mSpiFailed (beforeTransfer aCommand aValue s)"
    using assms(2) by simp
  ultimately obtain e where
    "last (transferCalls (beforeTransfer aCommand aValue s) (mWriteDelay s)) = fatalError e"
    using transferCalls_last by blast
  then show ?thesis
    unfolding write_facts(4) [OF assms(1)]
    by (simp only: last_appendR [OF transferCalls_nonempty]) blast
qed

lemma writeAll_loop_stopped:
  "writeAllFromCache_loop False command s = Some (False, s)"
  by (subst writeAllFromCache_loop.simps) simp

lemma writeAll_loop_facts:
  assumes "command \<le> 14"
  shows "\<exists>ok s'. writeAllFromCache_loop True command s = Some (ok, s') \<and> follows s s' \<and>
     (ok \<longrightarrow> length (delays (calls (mInterface s'))) =
                length (delays (calls (mInterface s))) + (14 - command) \<and>
             (\<not> mSpiFailed s \<longrightarrow> \<not> mSpiFailed s') \<and>
             (command < 14 \<longrightarrow> \<not> mSpiFailed s')) \<and>
     (\<not> ok \<longrightarrow> mSpiFailed s' \<and>
             length (delays (calls (mInterface s))) < length (delays (calls (mInterface s'))) \<and>
             length (delays (calls (mInterface s'))) \<le>
               length (delays (calls (mInterface s))) + (14 - command) \<and>
             (mSpiFailed s \<longrightarrow> length (delays (calls (mInterface s'))) =
                                   length (delays (calls (mInterface s))) + 1) \<and>
             (\<not> mSpiFailed s \<longrightarrow> (\<exists>e. last (calls (mInterface s')) = fatalError e)))"
  using assms
proof (induction "14 - command" arbitrary: command s)
  case 0
  then have "command = 14" by simp
  then show ?case
    by (auto simp add: writeAllFromCache_loop.simps cRegisterCount_def follows_refl)
next
  case (Suc n)
  then have lt: "command < 14" by simp
  note ix = of_nat_index [OF lt]
  obtain s1 where wr:
    "write_cmd (of_nat command) (mWriteCache s ! command) s =
       Some (transferResult s \<noteq> cInvalidResponse, s1)"
    using write_Some ix by blast
  note wf = write_facts [OF wr]
  have dl: "length (delays (calls (mInterface s1))) = length (delays (calls (mInterface s))) + 1"
    using write_delays [OF wr] by simp
  show ?case
  proof (cases "transferResult s = cInvalidResponse")
    case True
    have step: "writeAllFromCache_loop True command s = Some (False, s1)"
      using lt wr True
      by (subst writeAllFromCache_loop.simps)
         (simp add: cRegisterCount_def writeAll_loop_stopped)
    have "mSpiFailed s1" using wf(3) True by simp
    moreover have "\<exists>e. last (calls (mInterface s1)) = fatalError e" if "\<not> mSpiFailed s"
      using write_failure_last [OF _ that] wr True by simp
    ultimately show ?thesis
      apply (intro exI [of _ False] exI [of _ s1])
      using step wf(1) dl lt by simp
  next
    case False
    have step: "writeAllFromCache_loop True command s =
                  writeAllFromCache_loop True (Suc command) s1"
      using lt wr False by (subst writeAllFromCache_loop.simps) (simp add: cRegisterCount_def)
    have nl1: "\<not> mSpiFailed s1" using wf(3) False by simp
    have nl: "\<not> mSpiFailed s" using False by (auto simp add: transferResult_def)
    have n: "n = 14 - Suc command" using Suc.hyps(2) by simp
    have le: "Suc command \<le> 14" using lt by simp
    obtain ok s' where ih:
      "writeAllFromCache_loop True (Suc command) s1 = Some (ok, s')" "follows s1 s'"
      "ok \<longrightarrow> length (delays (calls (mInterface s'))) =
                length (delays (calls (mInterface s1))) + (14 - Suc command) \<and>
             (\<not> mSpiFailed s1 \<longrightarrow> \<not> mSpiFailed s')"
      "\<not> ok \<longrightarrow> mSpiFailed s' \<and>
             length (delays (calls (mInterface s1))) < length (delays (calls (mInterface s'))) \<and>
             length (delays (calls (mInterface s'))) \<le>
               length (delays (calls (mInterface s1))) + (14 - Suc command) \<and>
             (\<not> mSpiFailed s1 \<longrightarrow> (\<exists>e. last (calls (mInterface s')) = fatalError e))"
      using Suc.hyps(1) [OF n le, of s1] by blast
    have fo: "follows s s'" using follows_trans [OF wf(1) ih(2)] .
    show ?thesis
      apply (intro exI [of _ ok] exI [of _ s'])
      using step ih(1) fo ih(3) ih(4) nl1 nl dl lt by (cases ok) auto
  qed
qed

section \<open>Properties: the whole-cache operations\<close>

lemma readAllIntoCache_facts:
  obtains s' where "readAllIntoCache s = Some (mSpiFailed s', s')" "follows s s'"
    "delays (calls (mInterface s')) = delays (calls (mInterface s)) @ replicate 14 cNoDelay"
proof -
  obtain s' where "readAllIntoCache_loop True 0 s = Some s'" "follows s s'"
    "delays (calls (mInterface s')) = delays (calls (mInterface s)) @ replicate (14 - 0) cNoDelay"
    using readAll_loop_facts [of 0 s] by auto
  then show ?thesis
    using that by (simp add: readAllIntoCache_def)
qed

lemma writeAllFromCache_facts:
  obtains ok s' where "writeAllFromCache s = Some (ok, s')" "follows s s'"
    "ok \<longleftrightarrow> \<not> mSpiFailed s'"
    "ok \<Longrightarrow> length (delays (calls (mInterface s'))) =
             length (delays (calls (mInterface s))) + 14"
    "\<not> ok \<Longrightarrow> length (delays (calls (mInterface s))) < length (delays (calls (mInterface s'))) \<and>
             length (delays (calls (mInterface s'))) \<le>
               length (delays (calls (mInterface s))) + 14"
    "\<not> ok \<Longrightarrow> mSpiFailed s \<Longrightarrow>
       length (delays (calls (mInterface s'))) = length (delays (calls (mInterface s))) + 1"
    "\<not> ok \<Longrightarrow> \<not> mSpiFailed s \<Longrightarrow> \<exists>e. last (calls (mInterface s')) = fatalError e"
proof -
  obtain ok s' where f: "writeAllFromCache_loop True 0 s = Some (ok, s')" "follows s s'"
     "ok \<longrightarrow> length (delays (calls (mInterface s'))) =
                length (delays (calls (mInterface s))) + (14 - 0) \<and>
             (\<not> mSpiFailed s \<longrightarrow> \<not> mSpiFailed s') \<and>
             ((0::nat) < 14 \<longrightarrow> \<not> mSpiFailed s')"
     "\<not> ok \<longrightarrow> mSpiFailed s' \<and>
             length (delays (calls (mInterface s))) < length (delays (calls (mInterface s'))) \<and>
             length (delays (calls (mInterface s'))) \<le>
               length (delays (calls (mInterface s))) + (14 - 0) \<and>
             (mSpiFailed s \<longrightarrow> length (delays (calls (mInterface s'))) =
                                   length (delays (calls (mInterface s))) + 1) \<and>
             (\<not> mSpiFailed s \<longrightarrow> (\<exists>e. last (calls (mInterface s')) = fatalError e))"
    using writeAll_loop_facts [OF le0 [of 14], of s] by auto
  show ?thesis
  proof (rule that [of ok s'])
    show "writeAllFromCache s = Some (ok, s')" using f(1) by (simp add: writeAllFromCache_def)
    show "follows s s'" by (rule f(2))
    show "ok \<longleftrightarrow> \<not> mSpiFailed s'" using f(3,4) by (cases ok) simp_all
    show "length (delays (calls (mInterface s'))) =
             length (delays (calls (mInterface s))) + 14" if ok
      using f(3) that by simp
    show "length (delays (calls (mInterface s))) < length (delays (calls (mInterface s'))) \<and>
             length (delays (calls (mInterface s'))) \<le>
               length (delays (calls (mInterface s))) + 14" if "\<not> ok"
      using f(4) that by simp
    show "length (delays (calls (mInterface s'))) = length (delays (calls (mInterface s))) + 1"
      if "\<not> ok" "mSpiFailed s"
      using f(4) that by simp
    show "\<exists>e. last (calls (mInterface s')) = fatalError e" if "\<not> ok" "\<not> mSpiFailed s"
      using f(4) that by simp
  qed
qed

lemma writeFromCache_unfold:
  "aCommand < cRegisterCount \<Longrightarrow>
   writeFromCache aCommand s = write_cmd aCommand (mWriteCache s ! unat aCommand) s"
  by (simp add: writeFromCache_def)

lemma serve_follows: "serve q s = Some s' \<Longrightarrow> follows s s'"
proof (cases q)
  case (Read c)
  assume "serve q s = Some s'"
  then obtain r where "read c s = Some (r, s')" using Read by auto
  then show ?thesis by (rule read_facts(1))
next
  case (Write c v)
  assume "serve q s = Some s'"
  then obtain ok where "write_cmd c v s = Some (ok, s')" using Write by auto
  then show ?thesis by (rule write_facts(1))
next
  case (ReadIntoCache c)
  assume a: "serve q s = Some s'"
  then have ne: "read c s \<noteq> None"
    using ReadIntoCache by (auto simp add: readIntoCache_def split: option.splits)
  then have rng: "c < cRegisterCount"
    by (cases "c < cRegisterCount") (simp_all add: read_def)
  obtain s1 where rd: "read c s = Some (transferResult s, s1)"
    "readIntoCache c s = Some (mSpiFailed s1, s1)"
    using readIntoCache_facts [OF rng] by blast
  then have "s1 = s'" using a ReadIntoCache by simp
  then show ?thesis using read_facts(1) [OF rd(1)] by simp
next
  case (WriteFromCache c)
  assume a: "serve q s = Some s'"
  then have rng: "c < cRegisterCount"
    using WriteFromCache by (cases "c < cRegisterCount") (simp_all add: writeFromCache_def)
  obtain ok where "write_cmd c (mWriteCache s ! unat c) s = Some (ok, s')"
    using a WriteFromCache by (auto simp add: writeFromCache_unfold [OF rng])
  then show ?thesis by (rule write_facts(1))
next
  case ReadAllIntoCache
  assume a: "serve q s = Some s'"
  obtain s1 where "readAllIntoCache s = Some (mSpiFailed s1, s1)" "follows s s1"
    using readAllIntoCache_facts [of s] by blast
  then show ?thesis using a ReadAllIntoCache by simp
next
  case WriteAllFromCache
  assume a: "serve q s = Some s'"
  obtain ok s1 where "writeAllFromCache s = Some (ok, s1)" "follows s s1"
    using writeAllFromCache_facts [of s] by blast
  then show ?thesis using a WriteAllFromCache by simp
qed

lemma serveAll_follows: "serveAll qs s = Some s' \<Longrightarrow> follows s s'"
proof (induction qs arbitrary: s)
  case Nil
  then show ?case by (simp add: follows_refl)
next
  case (Cons q qs)
  then obtain s1 where s1: "serve q s = Some s1" "serveAll qs s1 = Some s'"
    by (auto split: option.splits)
  show ?case
    using follows_trans [OF serve_follows [OF s1(1)] Cons.IH [OF s1(2)]] .
qed

section \<open>C10: the return conventions of the cache operations\<close>

text \<open>
  C10. \<^verbatim>\<open>readIntoCache\<close> and \<^verbatim>\<open>readAllIntoCache\<close> return the fault latch (true after a
  failure); \<^verbatim>\<open>write\<close>, \<^verbatim>\<open>writeFromCache\<close> and \<^verbatim>\<open>writeAllFromCache\<close> return true exactly
  when the latch is clear afterwards. \<^verbatim>\<open>readAllIntoCache\<close> always makes 14 transfers (each
  transfer makes one delay call). \<^verbatim>\<open>writeAllFromCache\<close> makes 14 transfers when it succeeds;
  when it fails it has made between 1 and 14, and the failing write is the last thing it did:
  starting with the latch clear, the last call on the interface is the notification of the
  fatal-error sink, and starting with the latch set it makes one transfer only.
\<close>

theorem cache_operations_return_conventions:
  assumes "aCommand < cRegisterCount"
  shows
    "(case readIntoCache aCommand s of
        None \<Rightarrow> False
      | Some (failed, s') \<Rightarrow> failed = mSpiFailed s') \<and>
     (case readAllIntoCache s of
        None \<Rightarrow> False
      | Some (failed, s') \<Rightarrow>
          failed = mSpiFailed s' \<and>
          delays (calls (mInterface s')) =
            delays (calls (mInterface s)) @ replicate 14 cNoDelay) \<and>
     (case write_cmd aCommand aValue s of
        None \<Rightarrow> False
      | Some (ok, s') \<Rightarrow> ok = (\<not> mSpiFailed s')) \<and>
     (case writeFromCache aCommand s of
        None \<Rightarrow> False
      | Some (ok, s') \<Rightarrow> ok = (\<not> mSpiFailed s')) \<and>
     (case writeAllFromCache s of
        None \<Rightarrow> False
      | Some (ok, s') \<Rightarrow>
          ok = (\<not> mSpiFailed s') \<and>
          (if ok
           then length (delays (calls (mInterface s'))) =
                  length (delays (calls (mInterface s))) + 14
           else length (delays (calls (mInterface s))) < length (delays (calls (mInterface s'))) \<and>
                length (delays (calls (mInterface s'))) \<le>
                  length (delays (calls (mInterface s))) + 14 \<and>
                (mSpiFailed s \<longrightarrow>
                   length (delays (calls (mInterface s'))) =
                     length (delays (calls (mInterface s))) + 1) \<and>
                (\<not> mSpiFailed s \<longrightarrow>
                   (\<exists>e. last (calls (mInterface s')) = fatalError e))))"
proof -
  obtain s1 where p1: "readIntoCache aCommand s = Some (mSpiFailed s1, s1)"
    using readIntoCache_facts [OF assms] by blast
  obtain s2 where p2: "readAllIntoCache s = Some (mSpiFailed s2, s2)"
    "delays (calls (mInterface s2)) = delays (calls (mInterface s)) @ replicate 14 cNoDelay"
    using readAllIntoCache_facts [of s] by blast
  obtain s3 where p3: "write_cmd aCommand aValue s = Some (transferResult s \<noteq> cInvalidResponse, s3)"
    using write_Some [OF assms] by blast
  obtain s4 where p4: "write_cmd aCommand (mWriteCache s ! unat aCommand) s =
      Some (transferResult s \<noteq> cInvalidResponse, s4)"
    using write_Some [OF assms] by blast
  obtain ok s5 where p5: "writeAllFromCache s = Some (ok, s5)"
    "ok \<longleftrightarrow> \<not> mSpiFailed s5"
    "ok \<Longrightarrow> length (delays (calls (mInterface s5))) =
             length (delays (calls (mInterface s))) + 14"
    "\<not> ok \<Longrightarrow> length (delays (calls (mInterface s))) < length (delays (calls (mInterface s5))) \<and>
             length (delays (calls (mInterface s5))) \<le>
               length (delays (calls (mInterface s))) + 14"
    "\<not> ok \<Longrightarrow> mSpiFailed s \<Longrightarrow>
       length (delays (calls (mInterface s5))) = length (delays (calls (mInterface s))) + 1"
    "\<not> ok \<Longrightarrow> \<not> mSpiFailed s \<Longrightarrow> \<exists>e. last (calls (mInterface s5)) = fatalError e"
    using writeAllFromCache_facts [of s] by blast
  have q3: "(transferResult s \<noteq> cInvalidResponse) = (\<not> mSpiFailed s3)"
    using write_facts(3) [OF p3] by simp
  have q4: "(transferResult s \<noteq> cInvalidResponse) = (\<not> mSpiFailed s4)"
    using write_facts(3) [OF p4] by simp
  show ?thesis
    using p1 p2 p3 q3 p4 q4 p5 by (cases ok) (simp_all add: writeFromCache_unfold [OF assms])
qed

text \<open>
  The theorem of C10 on a peripheral that times out at the first exchange: both passes report
  the failure, the read pass after 14 transfers and the write pass after one.
\<close>

theorem cache_operations_return_conventions_witness:
  "(2::u32) < cRegisterCount \<and> \<not> mSpiFailed (constructed (answersFailAt 0)) \<and>
   (case readAllIntoCache (constructed (answersFailAt 0)) of
      None \<Rightarrow> False
    | Some (failed, s') \<Rightarrow>
        failed = mSpiFailed s' \<and> delays (calls (mInterface s')) = replicate 14 cNoDelay) \<and>
   (case writeAllFromCache (constructed (answersFailAt 0)) of
      None \<Rightarrow> False
    | Some (ok, s') \<Rightarrow>
        ok = (\<not> mSpiFailed s') \<and> \<not> ok \<and> delays (calls (mInterface s')) = [0] \<and>
        last (calls (mInterface s')) = fatalError cCommunication)"
proof -
  have h1: "(2::u32) < cRegisterCount" by (simp add: cRegisterCount_def)
  have h2: "\<not> mSpiFailed (constructed (answersFailAt 0))"
    and h3: "calls (mInterface (constructed (answersFailAt 0))) = []"
    by (simp_all add: constructed_def)
  have h4: "case writeAllFromCache (constructed (answersFailAt 0)) of
      None \<Rightarrow> False
    | Some (ok, s') \<Rightarrow>
        \<not> ok \<and> delays (calls (mInterface s')) = [0] \<and>
        last (calls (mInterface s')) = fatalError cCommunication"
    by (simp add: writeAllFromCache_def writeAllFromCache_loop.simps eval_defs2)
  show ?thesis
    using cache_operations_return_conventions [OF h1, of "constructed (answersFailAt 0)" 0]
      h1 h2 h3 h4
    by (auto split: option.splits)
qed

section \<open>Properties: reset\<close>

lemma reset_unfold:
  "reset s =
     (case writeAllFromCache ((resetAccess s)\<lparr>mSpiFailed := False\<rparr>) of
        None \<Rightarrow> None
      | Some (ok, s8) \<Rightarrow> Some (invoke (enableAll (\<not> mSpiFailed s8)) s8))"
  by (simp add: reset_def resetAccess_def Let_def)

lemma avoid_fields:
  "mSpiFailed (avoidInitialCommunicationFailure s) = mSpiFailed s"
  "mReadCache (avoidInitialCommunicationFailure s) = mReadCache s"
  "mWriteCache (avoidInitialCommunicationFailure s) =
     (mWriteCache s)[unat cCommand13 := adjusted cCommand13 (cInitialRegisterValues ! unat cCommand13)]"
  "exchanges (mInterface (avoidInitialCommunicationFailure s)) = exchanges (mInterface s) + 2"
  "calls (mInterface (avoidInitialCommunicationFailure s)) =
     calls (mInterface s) @
     [enableSpiTransfer True,
      spiTransmitReceive (take cSizeofRegister (mDataOut (avoidInitialCommunicationFailure s))),
      enableSpiTransfer False, enableSpiTransfer True,
      spiTransmitReceive (drop cSizeofRegister (mDataOut (avoidInitialCommunicationFailure s))),
      enableSpiTransfer False]"
  by (simp_all add: avoidInitialCommunicationFailure_def Let_def adjusted_def)

lemma resetAccess_fields:
  "mSpiFailed (resetAccess s) = mSpiFailed s"
  "mReadCache (resetAccess s) = mReadCache s"
  "mWriteCache (resetAccess s) =
     cInitialRegisterValues
       [unat cCommand13 := adjusted cCommand13 (cInitialRegisterValues ! unat cCommand13)]"
  "exchanges (mInterface (resetAccess s)) = exchanges (mInterface s) + 2"
  "calls (mInterface (resetAccess s)) =
     calls (mInterface s) @
     [enableReset True, delayMs cResetDelay, enableReset False, delayMs cResetDelay,
      enableSpiTransfer True,
      spiTransmitReceive (take cSizeofRegister (mDataOut (resetAccess s))),
      enableSpiTransfer False, enableSpiTransfer True,
      spiTransmitReceive (drop cSizeofRegister (mDataOut (resetAccess s))),
      enableSpiTransfer False]"
  by (simp_all add: resetAccess_def avoid_fields cRegisterCount_def cInitialRegisterValues_def)

lemma resetAccess_latch:
  "resetAccess (s\<lparr>mSpiFailed := b\<rparr>) = (resetAccess s)\<lparr>mSpiFailed := b\<rparr>"
  by (simp add: resetAccess_def avoidInitialCommunicationFailure_def invoke_def
      transmitReceive_def prepareDataToSend_def Let_def case_prod_beta)

lemma reset_facts:
  obtains ok s8 where
    "writeAllFromCache ((resetAccess s)\<lparr>mSpiFailed := False\<rparr>) = Some (ok, s8)"
    "ok \<longleftrightarrow> \<not> mSpiFailed s8"
    "reset s = Some (invoke (enableAll ok) s8)"
    "follows ((resetAccess s)\<lparr>mSpiFailed := False\<rparr>) s8"
proof -
  obtain ok s8 where w:
    "writeAllFromCache ((resetAccess s)\<lparr>mSpiFailed := False\<rparr>) = Some (ok, s8)"
    "follows ((resetAccess s)\<lparr>mSpiFailed := False\<rparr>) s8" "ok \<longleftrightarrow> \<not> mSpiFailed s8"
    using writeAllFromCache_facts [of "(resetAccess s)\<lparr>mSpiFailed := False\<rparr>"] by blast
  have "reset s = Some (invoke (enableAll ok) s8)"
    using w(1,3) by (simp add: reset_unfold)
  with w that show ?thesis by blast
qed

lemma reset_notifications:
  assumes "reset s = Some s'"
  shows "length (fatalErrors (calls (mInterface s'))) =
           length (fatalErrors (calls (mInterface s))) + (if mSpiFailed s' then 1 else 0)"
proof -
  obtain ok s8 where r:
    "reset s = Some (invoke (enableAll ok) s8)"
    "follows ((resetAccess s)\<lparr>mSpiFailed := False\<rparr>) s8"
    using reset_facts [of s] by blast
  have s': "s' = invoke (enableAll ok) s8" using assms r(1) by simp
  have "length (fatalErrors (calls (mInterface s8))) =
          length (fatalErrors (calls (mInterface ((resetAccess s)\<lparr>mSpiFailed := False\<rparr>)))) +
            (if mSpiFailed s8 then 1 else 0)"
    using r(2) by (simp add: follows_def)
  then show ?thesis
    unfolding s' by (simp add: resetAccess_fields fatalErrors_append)
qed

section \<open>C6: the order of the steps of reset\<close>

text \<open>
  C6, as amended. \<^verbatim>\<open>reset\<close> first toggles the reset line around two delays of 10 ms, copies the
  initial register image into the write cache and makes the throwaway exchange pair (two
  exchanges whose outcomes are dropped); the latch still has its old value at that point.
  Only then is the latch cleared, whatever it was: the result of \<^verbatim>\<open>reset\<close> does not depend on
  the latch it starts from. The write-back of all registers follows, and the last call is
  \<^verbatim>\<open>enableAll\<close> with true exactly when the write-back succeeded, which is when the latch is
  clear at the end.
\<close>

theorem reset_clears_latch_after_throwaway_pair:
  "reset s =
     (case writeAllFromCache ((resetAccess s)\<lparr>mSpiFailed := False\<rparr>) of
        None \<Rightarrow> None
      | Some (ok, s8) \<Rightarrow> Some (invoke (enableAll (\<not> mSpiFailed s8)) s8)) \<and>
   mSpiFailed (resetAccess s) = mSpiFailed s \<and>
   exchanges (mInterface (resetAccess s)) = exchanges (mInterface s) + 2 \<and>
   calls (mInterface (resetAccess s)) =
     calls (mInterface s) @
     [enableReset True, delayMs cResetDelay, enableReset False, delayMs cResetDelay,
      enableSpiTransfer True,
      spiTransmitReceive (take cSizeofRegister (mDataOut (resetAccess s))),
      enableSpiTransfer False, enableSpiTransfer True,
      spiTransmitReceive (drop cSizeofRegister (mDataOut (resetAccess s))),
      enableSpiTransfer False] \<and>
   mWriteCache (resetAccess s) =
     cInitialRegisterValues
       [unat cCommand13 := adjusted cCommand13 (cInitialRegisterValues ! unat cCommand13)] \<and>
   reset (s\<lparr>mSpiFailed := True\<rparr>) = reset (s\<lparr>mSpiFailed := False\<rparr>) \<and>
   (case reset s of
      None \<Rightarrow> False
    | Some s' \<Rightarrow>
        (\<exists>ok s8. writeAllFromCache ((resetAccess s)\<lparr>mSpiFailed := False\<rparr>) = Some (ok, s8) \<and>
                 s' = invoke (enableAll ok) s8) \<and>
        last (calls (mInterface s')) = enableAll (\<not> mSpiFailed s'))"
proof -
  obtain ok s8 where r:
    "writeAllFromCache ((resetAccess s)\<lparr>mSpiFailed := False\<rparr>) = Some (ok, s8)"
    "ok \<longleftrightarrow> \<not> mSpiFailed s8"
    "reset s = Some (invoke (enableAll ok) s8)"
    using reset_facts [of s] by blast
  have ind: "reset (s\<lparr>mSpiFailed := True\<rparr>) = reset (s\<lparr>mSpiFailed := False\<rparr>)"
    by (simp add: reset_unfold resetAccess_latch)
  have fin: "case reset s of
      None \<Rightarrow> False
    | Some s' \<Rightarrow>
        (\<exists>ok s8. writeAllFromCache ((resetAccess s)\<lparr>mSpiFailed := False\<rparr>) = Some (ok, s8) \<and>
                 s' = invoke (enableAll ok) s8) \<and>
        last (calls (mInterface s')) = enableAll (\<not> mSpiFailed s')"
    using r by simp
  show ?thesis
    using reset_unfold [of s] resetAccess_fields(1,3,4,5) [of s] ind fin by simp
qed

text \<open>
  C6 as stated fails in its first clause. On a driver whose latch is set, \<^verbatim>\<open>reset\<close> has toggled
  the reset line and made two SPI exchanges by the time it clears the latch, and the latch is
  still set then.
\<close>

theorem reset_accesses_hardware_while_latched_counterexample:
  "mSpiFailed ((constructed answersOk)\<lparr>mSpiFailed := True\<rparr>) \<and>
   mSpiFailed (resetAccess ((constructed answersOk)\<lparr>mSpiFailed := True\<rparr>)) \<and>
   exchanges (mInterface (resetAccess ((constructed answersOk)\<lparr>mSpiFailed := True\<rparr>))) = 2 \<and>
   calls (mInterface (resetAccess ((constructed answersOk)\<lparr>mSpiFailed := True\<rparr>))) =
     [enableReset True, delayMs 10, enableReset False, delayMs 10,
      enableSpiTransfer True, spiTransmitReceive [0xDA, 0xAA, 0xAA, 0xAA],
      enableSpiTransfer False, enableSpiTransfer True,
      spiTransmitReceive [0xF0, 0, 0, 1], enableSpiTransfer False] \<and>
   reset ((constructed answersOk)\<lparr>mSpiFailed := True\<rparr>) =
     (case writeAllFromCache
             ((resetAccess ((constructed answersOk)\<lparr>mSpiFailed := True\<rparr>))
              \<lparr>mSpiFailed := False\<rparr>) of
        None \<Rightarrow> None
      | Some (ok, s8) \<Rightarrow> Some (invoke (enableAll (\<not> mSpiFailed s8)) s8))"
proof -
  have "calls (mInterface (resetAccess ((constructed answersOk)\<lparr>mSpiFailed := True\<rparr>))) =
     [enableReset True, delayMs 10, enableReset False, delayMs 10,
      enableSpiTransfer True, spiTransmitReceive [0xDA, 0xAA, 0xAA, 0xAA],
      enableSpiTransfer False, enableSpiTransfer True,
      spiTransmitReceive [0xF0, 0, 0, 1], enableSpiTransfer False]"
    by (simp add: resetAccess_def avoidInitialCommunicationFailure_def
        cResetDelay_def cCommand13_def cInitialRegisterValues_def eval_defs2)
  moreover have
    "exchanges (mInterface (resetAccess ((constructed answersOk)\<lparr>mSpiFailed := True\<rparr>))) = 2"
    by (simp add: resetAccess_fields constructed_def)
  ultimately show ?thesis
    using reset_unfold [of "(constructed answersOk)\<lparr>mSpiFailed := True\<rparr>"]
    by (simp add: resetAccess_fields(1))
qed

text \<open>The theorem of C6 on a driver whose latch is set.\<close>

theorem reset_clears_latch_after_throwaway_pair_witness:
  "mSpiFailed (resetAccess ((constructed answersOk)\<lparr>mSpiFailed := True\<rparr>)) \<and>
   reset ((constructed answersOk)\<lparr>mSpiFailed := True\<rparr>) = reset (constructed answersOk) \<and>
   (case reset ((constructed answersOk)\<lparr>mSpiFailed := True\<rparr>) of
      None \<Rightarrow> False
    | Some s' \<Rightarrow> last (calls (mInterface s')) = enableAll (\<not> mSpiFailed s'))"
proof -
  have "(constructed answersOk)\<lparr>mSpiFailed := False\<rparr> = constructed answersOk"
    by (simp add: constructed_def)
  then show ?thesis
    using reset_clears_latch_after_throwaway_pair
            [of "(constructed answersOk)\<lparr>mSpiFailed := True\<rparr>"]
    by (auto split: option.splits)
qed

section \<open>C7: the fatal-error sink\<close>

text \<open>
  C7. One transfer on a driver whose latch is clear notifies the sink once with
  \<^verbatim>\<open>cCommunication\<close> when one of its exchanges does not report \<^verbatim>\<open>cOk\<close>, once with
  \<^verbatim>\<open>cParity\<close> when both do and the returned word fails the parity check, and not at all
  otherwise; the latch is set exactly in the first two cases. A transfer on a driver whose
  latch is set notifies nobody. Hence over any session of reads, writes and whole-cache passes
  the sink is notified exactly once if the latch goes from clear to set and never otherwise,
  and \<^verbatim>\<open>reset\<close>, which clears the latch before its write-back, notifies it once exactly when
  it ends with the latch set.
\<close>

theorem fatal_error_sink_notified_once:
  assumes "aCommand < cRegisterCount"
  shows
    "(case spiTransfer aCommand aDelay s of
        None \<Rightarrow> False
      | Some (r, s') \<Rightarrow>
          fatalErrors (calls (mInterface s')) =
            fatalErrors (calls (mInterface s)) @
              (if mSpiFailed s then []
               else if firstResult s \<noteq> cOk \<or> secondResult s \<noteq> cOk then [cCommunication]
               else if calculateParity (secondWord s) = cInvalidParity then [cParity]
               else []) \<and>
          (mSpiFailed s' \<longleftrightarrow>
             mSpiFailed s \<or> firstResult s \<noteq> cOk \<or> secondResult s \<noteq> cOk \<or>
             calculateParity (secondWord s) = cInvalidParity)) \<and>
     (\<forall>s'. serveAll requests s = Some s' \<longrightarrow>
        (mSpiFailed s \<longrightarrow> mSpiFailed s') \<and>
        length (fatalErrors (calls (mInterface s'))) =
          length (fatalErrors (calls (mInterface s))) +
            (if \<not> mSpiFailed s \<and> mSpiFailed s' then 1 else 0)) \<and>
     (case reset s of
        None \<Rightarrow> False
      | Some s' \<Rightarrow>
          length (fatalErrors (calls (mInterface s'))) =
            length (fatalErrors (calls (mInterface s))) + (if mSpiFailed s' then 1 else 0))"
proof -
  obtain r s1 where eq: "spiTransfer aCommand aDelay s = Some (r, s1)"
    using spiTransfer_Some [OF assms] by blast
  have a: "fatalErrors (calls (mInterface s1)) =
            fatalErrors (calls (mInterface s)) @
              (if mSpiFailed s then []
               else if firstResult s \<noteq> cOk \<or> secondResult s \<noteq> cOk then [cCommunication]
               else if calculateParity (secondWord s) = cInvalidParity then [cParity]
               else [])"
    unfolding spiTransfer_result(2) [OF eq]
    by (simp only: fatalErrors_append fatalErrors_transferCalls)
  have b: "mSpiFailed s1 \<longleftrightarrow>
             mSpiFailed s \<or> firstResult s \<noteq> cOk \<or> secondResult s \<noteq> cOk \<or>
             calculateParity (secondWord s) = cInvalidParity"
    unfolding spiTransfer_result(3) [OF eq]
    by (auto simp add: transferResult_def cInvalidResponse_def calculateParity_0)
  have c: "(mSpiFailed s \<longrightarrow> mSpiFailed s') \<and>
        length (fatalErrors (calls (mInterface s'))) =
          length (fatalErrors (calls (mInterface s))) +
            (if \<not> mSpiFailed s \<and> mSpiFailed s' then 1 else 0)"
    if "serveAll requests s = Some s'" for s'
    using serveAll_follows [OF that] by (simp add: follows_def)
  obtain ok s8 where rs: "reset s = Some (invoke (enableAll ok) s8)"
    using reset_facts [of s] by blast
  have d: "case reset s of
        None \<Rightarrow> False
      | Some s' \<Rightarrow>
          length (fatalErrors (calls (mInterface s'))) =
            length (fatalErrors (calls (mInterface s))) + (if mSpiFailed s' then 1 else 0)"
    using reset_notifications [OF rs] rs by simp
  show ?thesis
    using eq a b c d by simp
qed

text \<open>
  The theorem of C7 where the second exchange of the first transfer times out: that transfer
  notifies \<^verbatim>\<open>cCommunication\<close>, and a session that goes on with a read, a write and a full read
  pass ends with one notification in all.
\<close>

theorem fatal_error_sink_notified_once_witness:
  "(3::u32) < cRegisterCount \<and> \<not> mSpiFailed (constructed (answersFailAt 1)) \<and>
   firstResult (constructed (answersFailAt 1)) = cOk \<and>
   secondResult (constructed (answersFailAt 1)) \<noteq> cOk \<and>
   (case spiTransfer 3 0 (constructed (answersFailAt 1)) of
      None \<Rightarrow> False
    | Some (r, s') \<Rightarrow> fatalErrors (calls (mInterface s')) = [cCommunication] \<and> mSpiFailed s') \<and>
   (case serveAll [Write 3 0, Read 4, Write 5 0, ReadAllIntoCache]
           (constructed (answersFailAt 1)) of
      None \<Rightarrow> False
    | Some s' \<Rightarrow> mSpiFailed s' \<and> length (fatalErrors (calls (mInterface s'))) = 1)"
proof -
  have h1: "(3::u32) < cRegisterCount" by (simp add: cRegisterCount_def)
  have h2: "\<not> mSpiFailed (constructed (answersFailAt 1))"
    and h3: "firstResult (constructed (answersFailAt 1)) = cOk"
    and h4: "secondResult (constructed (answersFailAt 1)) \<noteq> cOk"
    and h5: "calls (mInterface (constructed (answersFailAt 1))) = []"
    by (simp_all add: constructed_def firstResult_def secondResult_def answersFailAt_def)
  obtain ok s1 where w: "write_cmd 3 0 (constructed (answersFailAt 1)) = Some (ok, s1)"
    using write_Some [OF h1] by blast
  have l1: "mSpiFailed s1"
    using write_facts(2,3) [OF w] h2 h3 h4 by (simp add: transferResult_def)
  obtain s' where run:
    "serveAll [Read 4, Write 5 0, ReadAllIntoCache] s1 = Some s'"
  proof -
    have r4: "(4::u32) < cRegisterCount" and r5: "(5::u32) < cRegisterCount"
      by (simp_all add: cRegisterCount_def)
    obtain a where a: "read 4 s1 = Some (transferResult s1, a)" using read_Some [OF r4] by blast
    obtain b where b: "write_cmd 5 0 a = Some (transferResult a \<noteq> cInvalidResponse, b)"
      using write_Some [OF r5] by blast
    obtain c where c: "readAllIntoCache b = Some (mSpiFailed c, c)"
      using readAllIntoCache_facts [of b] by blast
    show ?thesis using that a b c by simp
  qed
  have all: "serveAll [Write 3 0, Read 4, Write 5 0, ReadAllIntoCache]
               (constructed (answersFailAt 1)) = Some s'"
    using w run by simp
  have l2: "mSpiFailed s'"
    using serveAll_follows [OF run] l1 by (simp add: follows_def)
  show ?thesis
    using fatal_error_sink_notified_once
            [OF h1, where aDelay = 0 and s = "constructed (answersFailAt 1)"
               and requests = "[Write 3 0, Read 4, Write 5 0, ReadAllIntoCache]"]
      h1 h2 h3 h4 h5 all l2
    by (auto split: option.splits)
qed

section \<open>C5: what the read cache holds\<close>

lemma reset_invariant:
  assumes "reset s = Some s'" and "readCacheInvariant s"
  shows "readCacheInvariant s'"
proof -
  obtain ok s8 where r:
    "reset s = Some (invoke (enableAll ok) s8)"
    "follows ((resetAccess s)\<lparr>mSpiFailed := False\<rparr>) s8"
    using reset_facts [of s] by blast
  have "readCacheInvariant ((resetAccess s)\<lparr>mSpiFailed := False\<rparr>)"
    using assms(2) by (simp add: readCacheInvariant_def resetAccess_fields)
  then have "readCacheInvariant s8"
    using r(2) by (simp add: follows_def)
  then show ?thesis
    using assms(1) r(1) by (auto simp add: readCacheInvariant_def)
qed

text \<open>
  C5, as amended. A transfer started with the latch clear stores the value it returns in the
  read-cache slot of the addressed register and changes no other slot. That value is the word
  received in the second exchange, which is not 0, exactly when both exchanges reported
  \<^verbatim>\<open>cOk\<close> and the word passed the parity check; otherwise the transfer fails, the value is
  the invalid-response placeholder 0 and the latch is set afterwards. Whatever the latch, each entry is a validated
  word or the placeholder 0: that invariant is kept by every session of reads, writes and
  whole-cache passes and by \<^verbatim>\<open>reset\<close>.
\<close>

theorem read_cache_entry_validated_or_placeholder:
  assumes "aCommand < cRegisterCount"
  shows
    "(\<not> mSpiFailed s \<longrightarrow>
      (case spiTransfer aCommand aDelay s of
         None \<Rightarrow> False
       | Some (r, s') \<Rightarrow>
           mReadCache s' = (mReadCache s)[unat aCommand := r] \<and>
           (if r = cInvalidResponse then mSpiFailed s'
            else \<not> mSpiFailed s' \<and> firstResult s = cOk \<and>
                 secondResult s = cOk \<and> r = secondWord s \<and>
                 calculateParity r \<noteq> cInvalidParity) \<and>
           (if firstResult s = cOk \<and> secondResult s = cOk \<and>
               calculateParity (secondWord s) \<noteq> cInvalidParity
            then r = secondWord s \<and> r \<noteq> cInvalidResponse \<and> \<not> mSpiFailed s'
            else r = cInvalidResponse \<and> mSpiFailed s'))) \<and>
     (\<forall>s'. readCacheInvariant s \<and> serveAll requests s = Some s' \<longrightarrow> readCacheInvariant s') \<and>
     (case reset s of
        None \<Rightarrow> False
      | Some s' \<Rightarrow> readCacheInvariant s \<longrightarrow> readCacheInvariant s')"
proof -
  obtain r s1 where eq: "spiTransfer aCommand aDelay s = Some (r, s1)"
    using spiTransfer_Some [OF assms] by blast
  note rs = spiTransfer_result(1,3) [OF eq]
  have a: "mReadCache s1 = (mReadCache s)[unat aCommand := r]"
    by (rule spiTransfer_frame(5) [OF eq])
  have b: "if r = cInvalidResponse then mSpiFailed s1
           else \<not> mSpiFailed s \<and> \<not> mSpiFailed s1 \<and> firstResult s = cOk \<and>
                secondResult s = cOk \<and> r = secondWord s \<and>
                calculateParity r \<noteq> cInvalidParity"
    using rs by (auto simp add: transferResult_def split: if_splits)
  have nz: "secondWord s \<noteq> cInvalidResponse"
    if "calculateParity (secondWord s) \<noteq> cInvalidParity"
    using that calculateParity_0 by (auto simp add: cInvalidResponse_def)
  have b2: "if firstResult s = cOk \<and> secondResult s = cOk \<and>
               calculateParity (secondWord s) \<noteq> cInvalidParity
            then r = secondWord s \<and> r \<noteq> cInvalidResponse \<and> \<not> mSpiFailed s1
            else r = cInvalidResponse \<and> mSpiFailed s1" if "\<not> mSpiFailed s"
  proof (cases "firstResult s = cOk \<and> secondResult s = cOk \<and>
               calculateParity (secondWord s) \<noteq> cInvalidParity")
    case True
    then have "transferResult s = secondWord s" using that by (simp add: transferResult_def)
    then show ?thesis using True rs nz by simp
  next
    case False
    then have "transferResult s = cInvalidResponse" by (auto simp add: transferResult_def)
    then show ?thesis using False rs by simp
  qed
  have c: "readCacheInvariant s'" if "readCacheInvariant s" "serveAll requests s = Some s'" for s'
    using serveAll_follows [OF that(2)] that(1) by (simp add: follows_def)
  obtain ok s8 where rst: "reset s = Some (invoke (enableAll ok) s8)"
    using reset_facts [of s] by blast
  have d: "case reset s of
        None \<Rightarrow> False
      | Some s' \<Rightarrow> readCacheInvariant s \<longrightarrow> readCacheInvariant s'"
    using reset_invariant [OF rst] rst by simp
  have p1: "\<not> mSpiFailed s \<longrightarrow>
      (case spiTransfer aCommand aDelay s of
         None \<Rightarrow> False
       | Some (r, s') \<Rightarrow>
           mReadCache s' = (mReadCache s)[unat aCommand := r] \<and>
           (if r = cInvalidResponse then mSpiFailed s'
            else \<not> mSpiFailed s' \<and> firstResult s = cOk \<and>
                 secondResult s = cOk \<and> r = secondWord s \<and>
                 calculateParity r \<noteq> cInvalidParity) \<and>
           (if firstResult s = cOk \<and> secondResult s = cOk \<and>
               calculateParity (secondWord s) \<noteq> cInvalidParity
            then r = secondWord s \<and> r \<noteq> cInvalidResponse \<and> \<not> mSpiFailed s'
            else r = cInvalidResponse \<and> mSpiFailed s'))"
  proof
    assume nf: "\<not> mSpiFailed s"
    have b': "if r = cInvalidResponse then mSpiFailed s1
            else \<not> mSpiFailed s1 \<and> firstResult s = cOk \<and>
                 secondResult s = cOk \<and> r = secondWord s \<and>
                 calculateParity r \<noteq> cInvalidParity"
      using b by (simp split: if_splits)
    show "case spiTransfer aCommand aDelay s of
         None \<Rightarrow> False
       | Some (r, s') \<Rightarrow>
           mReadCache s' = (mReadCache s)[unat aCommand := r] \<and>
           (if r = cInvalidResponse then mSpiFailed s'
            else \<not> mSpiFailed s' \<and> firstResult s = cOk \<and>
                 secondResult s = cOk \<and> r = secondWord s \<and>
                 calculateParity r \<noteq> cInvalidParity) \<and>
           (if firstResult s = cOk \<and> secondResult s = cOk \<and>
               calculateParity (secondWord s) \<noteq> cInvalidParity
            then r = secondWord s \<and> r \<noteq> cInvalidResponse \<and> \<not> mSpiFailed s'
            else r = cInvalidResponse \<and> mSpiFailed s')"
      unfolding eq option.case prod.case
      by (intro conjI a b' b2 [OF nf])
  qed
  have p2: "\<forall>s'. readCacheInvariant s \<and> serveAll requests s = Some s' \<longrightarrow>
      readCacheInvariant s'"
    using c by blast
  from p1 p2 d show ?thesis by (intro conjI)
qed

text \<open>
  C5 as stated fails. Registers 3 and 4 are read successfully; a second read of register 3
  times out and replaces the validated word in its slot by the placeholder 0; the read of
  register 4 that follows, made with the latch set, does the same to the slot of register 4.
\<close>

theorem failed_transfer_stores_placeholder_counterexample:
  "(case read 3 (constructed (answersFailAt 4)) of
      None \<Rightarrow> False
    | Some (r1, s1) \<Rightarrow>
        (case read 4 s1 of
           None \<Rightarrow> False
         | Some (r2, s2) \<Rightarrow>
             \<not> mSpiFailed s2 \<and> mReadCache s2 ! 3 = 0x30000001 \<and>
             mReadCache s2 ! 4 = 0x30000001 \<and>
             (case read 3 s2 of
                None \<Rightarrow> False
              | Some (r3, s3) \<Rightarrow>
                  r3 = cInvalidResponse \<and> mSpiFailed s3 \<and> mReadCache s3 ! 3 = 0 \<and>
                  (case read 4 s3 of
                     None \<Rightarrow> False
                   | Some (r4, s4) \<Rightarrow> r4 = cInvalidResponse \<and> mReadCache s4 ! 4 = 0))))"
  by (simp add: eval_defs2)

text \<open>The theorem of C5 on a fresh driver and a peripheral that answers two exchanges and then
  times out.\<close>

theorem read_cache_entry_validated_or_placeholder_witness:
  "(3::u32) < cRegisterCount \<and> readCacheInvariant (constructed (answersFailAt 2)) \<and>
   \<not> mSpiFailed (constructed (answersFailAt 2)) \<and>
   (case spiTransfer 3 0 (constructed (answersFailAt 2)) of
      None \<Rightarrow> False
    | Some (r, s') \<Rightarrow>
        r = 0x30000001 \<and> mReadCache s' = (replicate 14 0)[unat (3::u32) := r] \<and>
        \<not> mSpiFailed s') \<and>
   (case serveAll [Read 3, Read 4, WriteAllFromCache] (constructed (answersFailAt 2)) of
      None \<Rightarrow> False
    | Some s' \<Rightarrow> readCacheInvariant s') \<and>
   (case reset (constructed (answersFailAt 2)) of
      None \<Rightarrow> False
    | Some s' \<Rightarrow> readCacheInvariant s')"
proof -
  let ?s = "constructed (answersFailAt 2)"
  have h1: "(3::u32) < cRegisterCount" by (simp add: cRegisterCount_def)
  have h2: "readCacheInvariant ?s"
    by (simp add: readCacheInvariant_def constructed_def cInvalidResponse_def list_all_iff)
  have h3: "mReadCache ?s = replicate 14 0" by (simp add: constructed_def)
  have h4: "case spiTransfer 3 0 ?s of None \<Rightarrow> False | Some (r, s') \<Rightarrow> r = 0x30000001"
    by (simp add: eval_defs2)
  have h5: "\<not> mSpiFailed ?s" by (simp add: constructed_def)
  obtain s' where run: "serveAll [Read 3, Read 4, WriteAllFromCache] ?s = Some s'"
  proof -
    have r4: "(4::u32) < cRegisterCount" by (simp add: cRegisterCount_def)
    obtain a where a: "read 3 ?s = Some (transferResult ?s, a)" using read_Some [OF h1] by blast
    obtain b where b: "read 4 a = Some (transferResult a, b)" using read_Some [OF r4] by blast
    obtain ok c where c: "writeAllFromCache b = Some (ok, c)"
      using writeAllFromCache_facts [of b] by blast
    show ?thesis using that a b c by simp
  qed
  show ?thesis
    using read_cache_entry_validated_or_placeholder
            [OF h1, where aDelay = 0 and s = ?s and requests = "[Read 3, Read 4, WriteAllFromCache]"]
      h1 h2 h3 h4 h5 run
    by (auto simp add: cInvalidResponse_def split: option.splits if_splits)
qed

section \<open>Properties: the diagnostics engine\<close>

lemma rightmost_positions:
  "getRightmost1position cMask0spiInputSelect81 = 17"
  "getRightmost1position cMask0protectionDisable81 = 9"
  "getRightmost1position cMask0outputVcompared81 = 1"
  "getRightmost1position cMask9diagOffPulse81 = 9"
  "getRightmost1position cMask9diagOnPulse81 = 1"
  "getRightmost1position cMask10bistHwscRequest = 5"
  "getRightmost1position cMask81tBlankOc81 = 9"
  "getRightmost1position cMask81lsHsConfig81 = 2"
  by (simp_all add: getRightmost1position_def getRightmost1position_loop.simps
      cMask0spiInputSelect81_def cMask0protectionDisable81_def cMask0outputVcompared81_def
      cMask9diagOffPulse81_def cMask9diagOnPulse81_def cMask10bistHwscRequest_def
      cMask81tBlankOc81_def cMask81lsHsConfig81_def)

lemma gatherChannels_loop_zero:
  "willTest = 0 \<Longrightarrow> gatherChannels_loop aTimeLimit aFetNow s i willTest = 0"
proof (induction aTimeLimit aFetNow s i willTest rule: gatherChannels_loop.induct)
  case (1 aTimeLimit aFetNow s i willTest)
  show ?case
  proof (cases "i < cChannelCount")
    case True
    then show ?thesis
      using 1 by (subst gatherChannels_loop.simps) (simp add: Let_def)
  next
    case False
    then show ?thesis
      using 1(2) by (subst gatherChannels_loop.simps) simp
  qed
qed

lemma two_masks: "(w AND push_bit (unat (0::u32)) (if a then 1 else 0))
                    AND push_bit (unat (0 + 1 :: u32)) (if b then 1 else 0) = (0::u32)"
  by (cases a; cases b) (simp_all add: and.assoc)

lemma gatherChannels_loop_from_0:
  "gatherChannels_loop aTimeLimit aFetNow s 0 willTest = 0"
proof -
  have c0: "(0::u32) < cChannelCount" and c1: "(0 + 1 :: u32) < cChannelCount"
    by (simp_all add: cChannelCount_def cMaskChannel_def)
  show ?thesis
    apply (subst gatherChannels_loop.simps)
    apply (simp only: c0 if_True Let_def)
    apply (subst gatherChannels_loop.simps)
    apply (simp only: c1 if_True Let_def two_masks)
    apply (rule gatherChannels_loop_zero)
    apply (rule refl)
    done
qed

lemma gatherChannels_zero: "gatherChannels aTimeLimit aFetNow s = 0"
  by (simp add: gatherChannels_def Let_def gatherChannels_loop_from_0)

lemma nine_in_range: "cCommand9 < cRegisterCount" "cCommand10 < cRegisterCount"
  by (simp_all add: cCommand9_def cCommand10_def cRegisterCount_def)

lemma pulse_wait:
  "cWaitForTest ! testIndex cOffPulse = 1" "cWaitForTest ! testIndex cOnPulse = 1"
  "cWaitForTest ! testIndex cBist = 3"
  by (simp_all add: cWaitForTest_def)

lemma triggerPulse_zero: "triggerPulse aTest aMask 0 s = Some s"
  by (simp add: triggerPulse_def)

lemma triggerPulse_facts:
  assumes "willTest \<noteq> 0"
  obtains ok s2 where
    "write_cmd cCommand9
       (cFixedPatternValues ! unat cCommand9
          OR push_bit (unat (getRightmost1position aMask)) willTest)
       (setWriteDelay (cWaitForTest ! testIndex aTest) s) = Some (ok, s2)"
    "triggerPulse aTest aMask willTest s =
       Some (s2\<lparr>mWriteCache := (mWriteCache s2)
                  [unat cCommand9 := cFixedPatternValues ! unat cCommand9]\<rparr>)"
proof -
  obtain s2 where w: "write_cmd cCommand9
       (cFixedPatternValues ! unat cCommand9
          OR push_bit (unat (getRightmost1position aMask)) willTest)
       (setWriteDelay (cWaitForTest ! testIndex aTest) s) =
     Some (transferResult (setWriteDelay (cWaitForTest ! testIndex aTest) s)
             \<noteq> cInvalidResponse, s2)"
    using write_Some [OF nine_in_range(1)] by blast
  then have "triggerPulse aTest aMask willTest s =
       Some (s2\<lparr>mWriteCache := (mWriteCache s2)
                  [unat cCommand9 := cFixedPatternValues ! unat cCommand9]\<rparr>)"
    using assms by (simp add: triggerPulse_def Let_def)
  with w that show ?thesis by blast
qed

lemma follows_setWriteDelay: "follows s (setWriteDelay d s)"
  by (rule follows_same) (simp_all add: setWriteDelay_def wellFormed_def)

lemma follows_writeCache: "follows s (s\<lparr>mWriteCache := (mWriteCache s)[i := v]\<rparr>)"
  by (rule follows_same) (simp_all add: wellFormed_def)

lemma triggerPulse_Some: "\<exists>s'. triggerPulse aTest aMask willTest s = Some s'"
proof (cases "willTest = 0")
  case True
  then show ?thesis by (simp add: triggerPulse_zero)
next
  case False
  then show ?thesis using triggerPulse_facts [OF False, of aMask aTest s] by metis
qed

lemma writeBistHwscRequest_Some: "\<exists>ok s'. writeBistHwscRequest aValue s = Some (ok, s')"
proof -
  obtain s1 where "write_cmd cCommand10
      ((mWriteCache s ! unat cCommand10 AND NOT cMask10bistHwscRequest) OR aValue) s =
      Some (transferResult s \<noteq> cInvalidResponse, s1)"
    using write_Some [OF nine_in_range(2)] by blast
  then show ?thesis
    by (simp add: writeBistHwscRequest_def writeEnum_def nine_in_range)
qed

lemma readAllIntoCache_Some: "\<exists>failed s'. readAllIntoCache s = Some (failed, s')"
  using readAllIntoCache_facts [of s] by metis

lemma performTest_Some: "\<exists>willTest s'. performTest aTest s = Some (willTest, s')"
proof -
  obtain f1 s1 where r: "readAllIntoCache s = Some (f1, s1)"
    using readAllIntoCache_Some by blast
  obtain t1 where t1: "triggerPulse aTest cMask9diagOffPulse81 (gatherChannels c142us True s1) s1 =
      Some t1"
    using triggerPulse_Some by blast
  obtain t2 where t2: "triggerPulse aTest cMask9diagOnPulse81 (gatherChannels c97us False s1) s1 =
      Some t2"
    using triggerPulse_Some by blast
  obtain ok b1 where b: "writeBistHwscRequest RequestBist_cYes
               (setWriteDelay (cWaitForTest ! testIndex aTest) s) = Some (ok, b1)"
    using writeBistHwscRequest_Some by blast
  obtain f2 b2 where rb: "readAllIntoCache b1 = Some (f2, b2)"
    using readAllIntoCache_Some by blast
  show ?thesis
    using r t1 t2 b rb by (cases aTest) (simp_all add: performTest_def Let_def)
qed

lemma performTest_pulse:
  assumes "aTest = cOffPulse \<or> aTest = cOnPulse"
  shows "\<exists>failed s'. readAllIntoCache s = Some (failed, s') \<and>
           performTest aTest s = Some (0, s')"
proof -
  obtain f1 s1 where r: "readAllIntoCache s = Some (f1, s1)"
    using readAllIntoCache_Some by blast
  then show ?thesis
    using assms
    by (auto simp add: performTest_def Let_def gatherChannels_zero triggerPulse_zero)
qed

lemma diagnosed_length:
  "length (map (\<lambda>i. (willTest::u32) AND push_bit i 1 > 0) [0..<unat cChannelCount]) = 8"
  by (simp add: cChannelCount_def cMaskChannel_def)

lemma diagnosed_zero:
  "i < 8 \<Longrightarrow> \<not> map (\<lambda>i. (0::u32) AND push_bit i 1 > 0) [0..<unat cChannelCount] ! i"
  by (simp add: cChannelCount_def cMaskChannel_def)

lemma refresh_scenario:
  "case readAllIntoCache (constructed answersScenario) of
     None \<Rightarrow> False
   | Some (failed, s1) \<Rightarrow>
       \<not> failed \<and> mReadCache s1 ! 0 = 0x02080001 \<and> mReadCache s1 ! 3 = 0x30000001 \<and>
       mReadCache s1 ! 4 = 0x40000000 \<and> exchanges (mInterface s1) = 28"
  apply (simp add: readAllIntoCache_def readAllIntoCache_loop.simps eval_defs2
      scenarioRegisters_def answersScenario_def)
  apply (simp add: eval_nat_numeral)
  done

lemma perform_unfold:
  "performTest aTest s = Some (willTest, s1) \<Longrightarrow>
   perform aTest (r0, s) =
     Some (r0\<lparr>mTestPerformed := aTest, mReadCache_copy := mReadCache s1,
              mChannelsDiagnosed :=
                map (\<lambda>i. willTest AND push_bit i 1 > 0) [0..<unat cChannelCount]\<rparr>, s1)"
  by (simp add: perform_def Let_def)

lemma write_first_exchange:
  assumes "write_cmd aCommand aValue s = Some (ok, s')" and "\<not> mSpiFailed s" and "wellFormed s"
  shows "\<exists>tx. calls (mInterface s') ! Suc (length (calls (mInterface s))) =
                spiTransmitReceive tx \<and>
              drop_bit 1 (receivedWord tx) = drop_bit 1 (adjusted aCommand aValue)"
proof -
  have rng: "aCommand < cRegisterCount" using assms(1) by (rule write_in_range)
  obtain r where sp:
    "spiTransfer aCommand (mWriteDelay s) (beforeTransfer aCommand aValue s) = Some (r, s')"
    using assms(1) by (auto simp add: write_unfold [OF rng] split: option.splits)
  let ?s1 = "s\<lparr>mWriteCache := (mWriteCache s)[unat aCommand := adjusted aCommand aValue]\<rparr>
              \<lparr>mWriteDelay := cNoDelay\<rparr>"
  have bt: "beforeTransfer aCommand aValue s = prepareDataToSend (adjusted aCommand aValue) ?s1"
    by (simp add: beforeTransfer_def prepareDataToSend_def Let_def)
  have wf1: "wellFormed ?s1" using assms(3) by (simp add: wellFormed_def)
  have nf1: "\<not> mSpiFailed ?s1" using assms(2) by simp
  obtain tx where tx: "calls (mInterface s') ! Suc (length (calls (mInterface ?s1))) =
      spiTransmitReceive tx"
    "receivedWord tx = adjusted aCommand aValue XOR calculateParity (adjusted aCommand aValue)"
    using first_exchange_sent [OF sp [unfolded bt] nf1 wf1] by blast
  have "drop_bit 1 (receivedWord tx) = drop_bit 1 (adjusted aCommand aValue)"
    unfolding tx(2) by (rule sent_upper_bits)
  with tx(1) show ?thesis by auto
qed

section \<open>C2: the pulse tests\<close>

text \<open>
  Whatever the registers hold, a pulse pass is the refresh of the registers and nothing more:
  the bitmap of \<^verbatim>\<open>gatherChannels\<close> is empty, so the trigger block is skipped.
\<close>

lemma pulse_pass_is_refresh:
  "performTest cOffPulse s = performTest cNone s"
  "performTest cOnPulse s = performTest cNone s"
  by (simp_all add: performTest_def Let_def gatherChannels_zero triggerPulse_zero
      split: option.splits)

text \<open>
  C2, on the device of its scenario. Bridge 1 is independent, diagnostics are enabled,
  channel 3 is in hardware input mode, its protection is enabled, its blanking time is below
  the ceiling of the off pulse and it is driven on: channel 3 meets every criterion of the
  claim in the refreshed cache, and the claim wants it in the bitmap and one trigger write
  issued. The code does otherwise. \<^verbatim>\<open>gatherChannels\<close> returns the empty bitmap, because its loop
  masks the bitmap with \<^verbatim>\<open>(ok ? 1u : 0u) << i\<close>, a word with no bit but bit \<open>i\<close>, at every
  step, so that no bit outlives two steps. The pass makes the 14 transfers of the refresh,
  all with delay 0, and no write to register 9: it is the pass of \<^verbatim>\<open>cNone\<close>. Channel 3 is not
  marked as diagnosed, and the query on it has no value.
\<close>

theorem off_pulse_pass_drops_eligible_channel:
  "(case perform cOffPulse (constructedResult, constructed answersScenario) of
      None \<Rightarrow> False
    | Some (r, s') \<Rightarrow>
        \<not> mSpiFailed s' \<and> \<not> getBridgeConfig c1 s' \<and> getEnableDiagnostics s' \<and>
        getSpiInputSelect 3 s' \<and> \<not> getProtectionDisable 3 s' \<and>
        getOcBlankTime 3 s' < c142us \<and> getSpiOnOut 3 s' \<and>
        gatherChannels c142us True s' = 0 \<and>
        \<not> mChannelsDiagnosed r ! 2 \<and> getChannelDiagnostics 3 r = None \<and>
        delays (calls (mInterface s')) = replicate 14 cNoDelay \<and>
        exchanges (mInterface s') = 28 \<and>
        performTest cNone (constructed answersScenario) = Some (0, s'))"
proof -
  let ?s = "constructed answersScenario"
  obtain s1 where rd: "readAllIntoCache ?s = Some (mSpiFailed s1, s1)"
    "delays (calls (mInterface s1)) = delays (calls (mInterface ?s)) @ replicate 14 cNoDelay"
    using readAllIntoCache_facts [of ?s] by blast
  have ev: "\<not> mSpiFailed s1" "mReadCache s1 ! 0 = 0x02080001" "mReadCache s1 ! 3 = 0x30000001"
    "mReadCache s1 ! 4 = 0x40000000" "exchanges (mInterface s1) = 28"
    using refresh_scenario rd(1) by simp_all
  have pt: "performTest cOffPulse ?s = Some (0, s1)"
    using performTest_pulse [of cOffPulse ?s] rd(1) by auto
  have pn: "performTest cNone ?s = Some (0, s1)"
    using pt by (simp only: pulse_pass_is_refresh(1))
  have pf: "perform cOffPulse (constructedResult, ?s) =
     Some (constructedResult\<lparr>mTestPerformed := cOffPulse, mReadCache_copy := mReadCache s1,
              mChannelsDiagnosed :=
                map (\<lambda>i. (0::u32) AND push_bit i 1 > 0) [0..<unat cChannelCount]\<rparr>, s1)"
    by (rule perform_unfold [OF pt])
  have crit: "\<not> getBridgeConfig c1 s1" "getEnableDiagnostics s1" "getSpiInputSelect 3 s1"
    "\<not> getProtectionDisable 3 s1" "getOcBlankTime 3 s1 < c142us" "getSpiOnOut 3 s1"
    unfolding getBridgeConfig_def getEnableDiagnostics_def getSpiInputSelect_def
        getProtectionDisable_def getOcBlankTime_def getSpiOnOut_def getSide_def getBool_def
        getEnum_def getValue_channel_def c142us_def cHs_def rightmost_positions
    using ev(2,3,4)
    by (simp_all add: bridge2command1458_def channel2command18_def
        cCommand0_def cCommand1_def cCommand4_def cMaskChannel_def
        cMask4bridge1config_def cMask0enableDiagnostics_def cMask0spiInputSelect81_def
        cMask0protectionDisable81_def cMask0outputVcompared81_def cMask81tBlankOc81_def
        cMask81lsHsConfig81_def cLs_def Let_def)
  have dl: "delays (calls (mInterface s1)) = replicate 14 cNoDelay"
    using rd(2) by (simp add: constructed_def)
  have two: "unat ((3::u32) - 1) = 2" by simp
  have q: "getChannelDiagnostics 3
      (constructedResult\<lparr>mTestPerformed := cOffPulse, mReadCache_copy := mReadCache s1,
         mChannelsDiagnosed :=
           map (\<lambda>i. (0::u32) AND push_bit i 1 > 0) [0..<unat cChannelCount]\<rparr>) = None"
    using diagnosed_zero [of 2] by (simp add: getChannelDiagnostics_def Let_def two)
  show ?thesis
    using ev(1,5) crit dl pn diagnosed_zero [of 2] q
    by (simp add: pf gatherChannels_zero)
qed

section \<open>C8: queries on channels that were not probed\<close>

lemma perform_Some:
  obtains willTest s' where "performTest aTest s = Some (willTest, s')"
    "perform aTest (r0, s) =
       Some (r0\<lparr>mTestPerformed := aTest, mReadCache_copy := mReadCache s',
                mChannelsDiagnosed :=
                  map (\<lambda>i. willTest AND push_bit i 1 > 0) [0..<unat cChannelCount]\<rparr>, s')"
proof -
  obtain willTest s' where p: "performTest aTest s = Some (willTest, s')"
    using performTest_Some by blast
  show ?thesis
    using that [OF p perform_unfold [OF p]] .
qed

text \<open>
  C8. The result object of a pass records the test, a copy of the read cache of the driver as
  the pass left it, and one flag per channel, the bit of the channel in the bitmap of the pass.
  \<^verbatim>\<open>getChannelDiagnostics\<close> is a function of the result object alone, so it makes no call on
  the interface. It returns no value for channel 0, for a channel above 8, for a channel whose
  flag is clear, and after a pass whose test was neither \<^verbatim>\<open>cAuto\<close> nor a pulse test; in the
  remaining case it returns the three diagnostic bits of the channel from the frozen copy.
\<close>

theorem unprobed_channel_is_not_applicable:
  "case perform aTest (r0, s) of
     None \<Rightarrow> False
   | Some (r, s') \<Rightarrow>
       mTestPerformed r = aTest \<and> mReadCache_copy r = mReadCache s' \<and>
       (\<exists>willTest. performTest aTest s = Some (willTest, s') \<and>
          mChannelsDiagnosed r =
            map (\<lambda>i. willTest AND push_bit i 1 > 0) [0..<unat cChannelCount]) \<and>
       (if aChannel = 0 \<or> cChannelCount < aChannel \<or>
           \<not> mChannelsDiagnosed r ! unat (aChannel - 1) \<or>
           (aTest \<noteq> cAuto \<and> aTest \<noteq> cOffPulse \<and> aTest \<noteq> cOnPulse)
        then getChannelDiagnostics aChannel r = None
        else getChannelDiagnostics aChannel r =
               Some (drop_bit (unat aChannel)
                       (mReadCache_copy r ! unat cCommand9 AND
                          (cMask9diagnosticBit2ch81 OR cMask9diagnosticBit1ch81 OR
                           cMask9diagnosticBit0ch81))
                     AND cMaskChannelDiagnostics))"
proof -
  obtain willTest s' where p: "performTest aTest s = Some (willTest, s')"
    "perform aTest (r0, s) =
       Some (r0\<lparr>mTestPerformed := aTest, mReadCache_copy := mReadCache s',
                mChannelsDiagnosed :=
                  map (\<lambda>i. willTest AND push_bit i 1 > 0) [0..<unat cChannelCount]\<rparr>, s')"
    using perform_Some [of aTest s r0] by blast
  have pos: "0 < aChannel \<longleftrightarrow> aChannel \<noteq> 0"
    by (simp add: word_greater_zero_iff)
  show ?thesis
    using p pos by (auto simp add: getChannelDiagnostics_def Let_def not_less)
qed

text \<open>The theorem of C8 after an off-pulse pass, for channel 3, whose flag is clear, and for
  channel 9.\<close>

theorem unprobed_channel_is_not_applicable_witness:
  "(case perform cOffPulse (constructedResult, constructed answersScenario) of
      None \<Rightarrow> False
    | Some (r, s') \<Rightarrow>
        \<not> mChannelsDiagnosed r ! unat (3 - 1 :: u32) \<and> getChannelDiagnostics 3 r = None) \<and>
   cChannelCount < 9 \<and>
   (case perform cAuto (constructedResult, constructed answersScenario) of
      None \<Rightarrow> False
    | Some (r, s') \<Rightarrow> getChannelDiagnostics 9 r = None)"
proof -
  let ?s = "constructed answersScenario"
  obtain f s1 where pt: "performTest cOffPulse ?s = Some (0, s1)"
    using performTest_pulse [of cOffPulse ?s] by auto
  have fl: "case perform cOffPulse (constructedResult, ?s) of
      None \<Rightarrow> False
    | Some (r, s') \<Rightarrow> \<not> mChannelsDiagnosed r ! unat (3 - 1 :: u32)"
    using perform_unfold [OF pt, of constructedResult] diagnosed_zero [of 2] by simp
  have h9: "cChannelCount < 9" by (simp add: cChannelCount_def cMaskChannel_def)
  show ?thesis
    using unprobed_channel_is_not_applicable
            [where aTest = cOffPulse and ?r0.0 = constructedResult and s = ?s and aChannel = 3]
      unprobed_channel_is_not_applicable
            [where aTest = cAuto and ?r0.0 = constructedResult and s = ?s and aChannel = 9]
      fl h9
    by (auto split: option.splits if_splits)
qed

end
